theory Spec2Isabelle
  imports Complex_Main "HOL-Library.Product_Lexorder"
begin

unbundle bit_operations_syntax

section \<open>Data model\<close>

text \<open>
  JavaScript numbers that hold integers are modelled as \<open>int\<close>. A typed array
  (\<open>Uint8Array\<close>, \<open>Uint8ClampedArray\<close>) is an \<open>int list\<close> whose elements lie in
  \<open>[0, 255]\<close>; the conversion a store performs is written out (\<open>AND 255\<close> where the
  source masks, \<open>clampByte\<close> for a clamped array). A store outside the array is ignored
  by JavaScript, as \<open>xs[i := v]\<close> is in HOL.
\<close>

record ImageData =
  width :: int
  height :: int
  data :: "int list"

definition isByte :: "int \<Rightarrow> bool" where
  "isByte v \<longleftrightarrow> 0 \<le> v \<and> v \<le> 255"

text \<open>An RGBA raster: four bytes for each of the \<open>width * height\<close> pixels.\<close>

definition validImage :: "ImageData \<Rightarrow> bool" where
  "validImage img \<longleftrightarrow>
     length (data img) = 4 * (nat (width img) * nat (height img))
       \<and> list_all isByte (data img)"

definition clampByte :: "int \<Rightarrow> int" where
  "clampByte v = max 0 (min 255 v)"

section \<open>Paeth predictor (route.ts, decode.ts)\<close>

definition paeth :: "int \<Rightarrow> int \<Rightarrow> int \<Rightarrow> int" where
  "paeth a b c =
     (let p = a + b - c;
          pa = \<bar>p - a\<bar>;
          pb = \<bar>p - b\<bar>;
          pc = \<bar>p - c\<bar>
      in if pa \<le> pb \<and> pa \<le> pc then a else if pb \<le> pc then b else c)"

definition idx :: "nat \<Rightarrow> nat \<Rightarrow> nat \<Rightarrow> nat" where
  "idx w x y = (y * w + x) * 4"

text \<open>
  Both loops run \<open>y\<close> over \<open>0 \<le> y < height\<close> and \<open>x\<close> over \<open>0 \<le> x < width\<close>, that
  is over \<open>[0..<nat height]\<close> and \<open>[0..<nat width]\<close>; inside the loops the width is
  positive, so \<open>idx\<close> is computed on naturals.

  \<open>pred\<close> of both loops: the neighbours are read from \<open>buf\<close>, which is the source
  image in \<open>buildResidualImage\<close> and the output under construction in
  \<open>decodePaethResidual\<close>; a missing neighbour counts as 0.
\<close>

definition pred :: "int list \<Rightarrow> nat \<Rightarrow> nat \<Rightarrow> nat \<Rightarrow> nat \<Rightarrow> int" where
  "pred buf w x y c =
     (let hasLeft = (x > 0);
          hasUp = (y > 0);
          A = (if hasLeft then buf ! (idx w (x - 1) y + c) else 0);
          B = (if hasUp then buf ! (idx w x (y - 1) + c) else 0);
          C = (if hasLeft \<and> hasUp then buf ! (idx w (x - 1) (y - 1) + c) else 0)
      in paeth A B C)"

definition residualPixel :: "int list \<Rightarrow> nat \<Rightarrow> nat \<Rightarrow> nat \<Rightarrow> int list \<Rightarrow> int list" where
  "residualPixel src w x y out =
     (let off = idx w x y;
          r = src ! off;
          g = src ! (off + 1);
          b = src ! (off + 2);
          a = src ! (off + 3);
          pr = pred src w x y 0;
          pg = pred src w x y 1;
          pb = pred src w x y 2
      in out[off := clampByte ((r - pr + 256) AND 255),
             off + 1 := clampByte ((g - pg + 256) AND 255),
             off + 2 := clampByte ((b - pb + 256) AND 255),
             off + 3 := clampByte a])"

definition buildResidualImage :: "ImageData \<Rightarrow> ImageData" where
  "buildResidualImage imageData =
     (let w = nat (width imageData);
          h = nat (height imageData);
          src = data imageData;
          out = fold (\<lambda>y. fold (\<lambda>x. residualPixel src w x y) [0..<w]) [0..<h]
                  (replicate (length src) 0)
      in \<lparr>width = width imageData, height = height imageData, data = out\<rparr>)"

definition reconstructPixel :: "int list \<Rightarrow> nat \<Rightarrow> nat \<Rightarrow> nat \<Rightarrow> int list \<Rightarrow> int list" where
  "reconstructPixel res w x y out =
     (let off = idx w x y;
          v0 = clampByte ((res ! off + pred out w x y 0) AND 255);
          out1 = out[off := v0];
          v1 = clampByte ((res ! (off + 1) + pred out1 w x y 1) AND 255);
          out2 = out1[off + 1 := v1];
          v2 = clampByte ((res ! (off + 2) + pred out2 w x y 2) AND 255);
          out3 = out2[off + 2 := v2]
      in out3[off + 3 := clampByte (res ! (off + 3))])"

definition decodePaethResidual :: "ImageData \<Rightarrow> ImageData" where
  "decodePaethResidual residual =
     (let w = nat (width residual);
          h = nat (height residual);
          res = data residual;
          out = fold (\<lambda>y. fold (\<lambda>x. reconstructPixel res w x y) [0..<w]) [0..<h]
                  (replicate (length res) 0)
      in \<lparr>width = width residual, height = height residual, data = out\<rparr>)"

text \<open>
  The value \<open>buildResidualImage\<close> leaves at channel \<open>c\<close> of pixel \<open>k\<close> (raster order):
  the residual of a colour channel, the alpha byte itself.
\<close>

definition residualAt :: "int list \<Rightarrow> nat \<Rightarrow> nat \<Rightarrow> nat \<Rightarrow> int" where
  "residualAt src w k c =
     (if c = 3 then src ! (4 * k + 3)
      else (src ! (4 * k + c) - pred src w (k mod w) (k div w) c + 256) mod 256)"

section \<open>Container (container.ts)\<close>

text \<open>
  Every \<open>throw\<close> of the source and every exception the JavaScript runtime raises on a
  path of the model is a value of \<open>error\<close>:
  \<open>RangeError\<close> is what \<open>DataView.getUint8\<close> and \<open>getUint32\<close> raise when they read past
  the end of the buffer, and what a typed array of negative length raises;
  \<open>TypeError\<close> is reading a property of \<open>undefined\<close>; the others are the source's own
  \<open>throw new Error(...)\<close>.
\<close>

datatype error =
    RangeError
  | TypeError
  | InvalidContainerMagic
  | UnsupportedContainerVersion int
  | QoiStreamTooSmall
  | InvalidQoiMagic
  | OnlyRgbaQoi
  | QoiDimensionMismatch

definition CONTAINER_MAGIC :: "int list" where
  "CONTAINER_MAGIC = [75, 77, 82, 49]"  \<comment> \<open>the char codes of \<open>KMR1\<close>\<close>

definition HEADER_SIZE :: nat where
  "HEADER_SIZE = 32"

record ContainerInput =
  in_width :: int
  in_height :: int
  in_blockSize :: int
  in_discardBits :: int
  in_smooth :: bool
  in_qoi :: "int list"
  in_huffmanY :: "int list"
  in_huffmanCb :: "int list"
  in_huffmanCr :: "int list"

text \<open>\<open>DataView.setUint32(offset, v, false)\<close>: the low 32 bits of \<open>v\<close>, big-endian.\<close>

definition setUint32 :: "int \<Rightarrow> int list" where
  "setUint32 v =
     (let u = v mod 2 ^ 32
      in [u div 2 ^ 24, (u div 2 ^ 16) mod 256, (u div 2 ^ 8) mod 256, u mod 256])"

text \<open>\<open>DataView.getUint32(offset, false)\<close> on a buffer that holds the four bytes.\<close>

definition getUint32 :: "int list \<Rightarrow> nat \<Rightarrow> int" where
  "getUint32 buf offset =
     buf ! offset * 2 ^ 24 + buf ! (offset + 1) * 2 ^ 16 + buf ! (offset + 2) * 2 ^ 8
       + buf ! (offset + 3)"

text \<open>
  \<open>buildContainer\<close> fills a zeroed buffer of \<open>totalSize\<close> bytes front to back; the model
  lists the bytes in that order. \<open>blockSize\<close> and \<open>discardBits\<close> are integers here, so
  \<open>Math.floor\<close> is the identity; \<open>setUint8\<close> keeps the low eight bits.
\<close>

definition buildContainer :: "ContainerInput \<Rightarrow> int list" where
  "buildContainer ci =
     (let block = max 2 (min 255 (in_blockSize ci));
          discard = max 0 (min 255 (in_discardBits ci))
      in CONTAINER_MAGIC
         @ [1, block mod 256, discard mod 256, (if in_smooth ci then 1 else 0)]
         @ setUint32 (in_width ci)
         @ setUint32 (in_height ci)
         @ setUint32 (int (length (in_qoi ci)))
         @ setUint32 (int (length (in_huffmanY ci)))
         @ setUint32 (int (length (in_huffmanCb ci)))
         @ setUint32 (int (length (in_huffmanCr ci)))
         @ in_qoi ci @ in_huffmanY ci @ in_huffmanCb ci @ in_huffmanCr ci)"

record ParsedContainer =
  pc_version :: int
  pc_width :: int
  pc_height :: int
  pc_blockSize :: int
  pc_discardBits :: int
  pc_smooth :: bool
  pc_qoi :: "int list"
  pc_huffmanY :: "int list"
  pc_huffmanCb :: "int list"
  pc_huffmanCr :: "int list"
  pc_totalSize :: nat

text \<open>\<open>Uint8Array.slice(start, end)\<close> for \<open>0 \<le> start \<le> end\<close>: both ends are clamped to the array.\<close>

definition slice :: "int list \<Rightarrow> nat \<Rightarrow> nat \<Rightarrow> int list" where
  "slice bytes start stop = take (stop - start) (drop start bytes)"

text \<open>
  \<open>parseContainer\<close> reads the fields in order; the first read past the end of the buffer
  raises \<open>RangeError\<close>, so the checks of the buffer length sit where the source's reads
  are: four magic bytes, then the magic test, the version byte, then the version test,
  then the remaining 27 header bytes.
\<close>

definition parseContainer :: "int list \<Rightarrow> error + ParsedContainer" where
  "parseContainer buffer =
     (if length buffer < 4 then Inl RangeError
      else if take 4 buffer \<noteq> CONTAINER_MAGIC then Inl InvalidContainerMagic
      else if length buffer < 5 then Inl RangeError
      else let version = buffer ! 4 in
        if version \<noteq> 1 then Inl (UnsupportedContainerVersion version)
        else if length buffer < HEADER_SIZE then Inl RangeError
        else
          let blockSize = buffer ! 5;
              discardBits = buffer ! 6;
              smooth = (buffer ! 7 = 1);
              w = getUint32 buffer 8;
              h = getUint32 buffer 12;
              qoiLen = nat (getUint32 buffer 16);
              yLen = nat (getUint32 buffer 20);
              cbLen = nat (getUint32 buffer 24);
              crLen = nat (getUint32 buffer 28);
              offset0 = HEADER_SIZE;
              qoi = slice buffer offset0 (offset0 + qoiLen);
              offset1 = offset0 + qoiLen;
              huffmanY = slice buffer offset1 (offset1 + yLen);
              offset2 = offset1 + yLen;
              huffmanCb = slice buffer offset2 (offset2 + cbLen);
              offset3 = offset2 + cbLen;
              huffmanCr = slice buffer offset3 (offset3 + crLen)
          in Inr \<lparr>pc_version = version, pc_width = w, pc_height = h,
                   pc_blockSize = blockSize, pc_discardBits = discardBits,
                   pc_smooth = smooth, pc_qoi = qoi, pc_huffmanY = huffmanY,
                   pc_huffmanCb = huffmanCb, pc_huffmanCr = huffmanCr,
                   pc_totalSize = length buffer\<rparr>)"

section \<open>QOI codec (qoi.ts)\<close>

definition QOI_OP_INDEX :: int where "QOI_OP_INDEX = 0"
definition QOI_OP_DIFF :: int where "QOI_OP_DIFF = 64"
definition QOI_OP_LUMA :: int where "QOI_OP_LUMA = 128"
definition QOI_OP_RUN :: int where "QOI_OP_RUN = 192"
definition QOI_OP_RGB :: int where "QOI_OP_RGB = 254"
definition QOI_OP_RGBA :: int where "QOI_OP_RGBA = 255"
definition QOI_MASK_2 :: int where "QOI_MASK_2 = 192"

definition qoiHash :: "int \<Rightarrow> int \<Rightarrow> int \<Rightarrow> int \<Rightarrow> int" where
  "qoiHash r g b a = (r * 3 + g * 5 + b * 7 + a * 11) mod 64"

text \<open>\<open>(v << 24) >> 24\<close>: the low eight bits of \<open>v\<close> read as a signed byte.\<close>

definition signExtend8 :: "int \<Rightarrow> int" where
  "signExtend8 v = (v + 128) mod 256 - 128"

text \<open>The 32-bit signed value of a bitwise result (\<open>ToInt32\<close>).\<close>

definition toInt32 :: "int \<Rightarrow> int" where
  "toInt32 v = (v + 2 ^ 31) mod 2 ^ 32 - 2 ^ 31"

text \<open>
  The encoder writes \<open>bytes[p++] = v\<close> into a \<open>Uint8Array\<close> of \<open>14 + 5 * pixels + 8\<close>
  bytes and returns \<open>bytes.slice(0, p)\<close>. A pixel writes at most five bytes, so no store
  falls outside; the model appends the stored byte \<open>v mod 256\<close> to the bytes written so
  far.
\<close>

definition emit :: "int list \<Rightarrow> int \<Rightarrow> int list" where
  "emit bytes v = bytes @ [v mod 256]"

record QoiEncoder =
  qe_bytes :: "int list"
  qe_px_r :: int
  qe_px_g :: int
  qe_px_b :: int
  qe_px_a :: int
  qe_run :: int
  qe_index :: "int list"

text \<open>The body of the encoder's loop for the pixel \<open>(r, g, b, a)\<close>.\<close>

definition encodePixel :: "int \<Rightarrow> int \<Rightarrow> int \<Rightarrow> int \<Rightarrow> QoiEncoder \<Rightarrow> QoiEncoder" where
  "encodePixel r g b a s =
     (let s1 =
        (if r = qe_px_r s \<and> g = qe_px_g s \<and> b = qe_px_b s \<and> a = qe_px_a s then
           (let run = qe_run s + 1
            in if run = 62
               then s\<lparr>qe_bytes := emit (qe_bytes s) (QOI_OP_RUN OR (run - 1)), qe_run := 0\<rparr>
               else s\<lparr>qe_run := run\<rparr>)
         else
           (let s0 = (if qe_run s > 0
                      then s\<lparr>qe_bytes := emit (qe_bytes s) (QOI_OP_RUN OR (qe_run s - 1)),
                             qe_run := 0\<rparr>
                      else s);
                indexPos = qoiHash r g b a;
                idxOffset = nat (indexPos * 4);
                index = qe_index s0
            in if index ! idxOffset = r \<and> index ! (idxOffset + 1) = g
                  \<and> index ! (idxOffset + 2) = b \<and> index ! (idxOffset + 3) = a
               then s0\<lparr>qe_bytes := emit (qe_bytes s0) (QOI_OP_INDEX OR indexPos)\<rparr>
               else
                 (let index' = index[idxOffset := r mod 256, idxOffset + 1 := g mod 256,
                                     idxOffset + 2 := b mod 256, idxOffset + 3 := a mod 256];
                      s2 = s0\<lparr>qe_index := index'\<rparr>
                  in if a = qe_px_a s then
                       (let vg_r = signExtend8 (r - qe_px_r s);
                            vg_g = signExtend8 (g - qe_px_g s);
                            vg_b = signExtend8 (b - qe_px_b s)
                        in if vg_r > -3 \<and> vg_r < 2 \<and> vg_g > -3 \<and> vg_g < 2
                              \<and> vg_b > -3 \<and> vg_b < 2
                           then s2\<lparr>qe_bytes := emit (qe_bytes s2)
                                  (QOI_OP_DIFF OR push_bit 4 (vg_r + 2) OR push_bit 2 (vg_g + 2)
                                     OR (vg_b + 2))\<rparr>
                           else
                             (let vg_dr = signExtend8 (vg_r - vg_g);
                                  vg_db = signExtend8 (vg_b - vg_g)
                              in if vg_g > -33 \<and> vg_g < 32 \<and> vg_dr > -9 \<and> vg_dr < 8
                                    \<and> vg_db > -9 \<and> vg_db < 8
                                 then s2\<lparr>qe_bytes :=
                                        emit (emit (qe_bytes s2) (QOI_OP_LUMA OR (vg_g + 32)))
                                          (push_bit 4 (vg_dr + 8) OR (vg_db + 8))\<rparr>
                                 else s2\<lparr>qe_bytes :=
                                        emit (emit (emit (emit (qe_bytes s2) QOI_OP_RGB) r) g) b\<rparr>))
                     else s2\<lparr>qe_bytes :=
                            emit (emit (emit (emit (emit (qe_bytes s2) QOI_OP_RGBA) r) g) b) a\<rparr>)))
      in s1\<lparr>qe_px_r := r, qe_px_g := g, qe_px_b := b, qe_px_a := a\<rparr>)"

definition qoiHeader :: "int \<Rightarrow> int \<Rightarrow> int list" where
  "qoiHeader w h =
     [113, 111, 105, 102,
      drop_bit 24 w AND 255, drop_bit 16 w AND 255, drop_bit 8 w AND 255, w AND 255,
      drop_bit 24 h AND 255, drop_bit 16 h AND 255, drop_bit 8 h AND 255, h AND 255,
      4, 0]"

text \<open>
  \<open>encodeQOI\<close>: header, one loop step for each of the \<open>width * height\<close> pixels, the
  pending run, the end marker. The pixel \<open>k\<close> is the four bytes from \<open>4 * k\<close> on.
\<close>

definition encodeQOI :: "ImageData \<Rightarrow> int list" where
  "encodeQOI imageData =
     (let w = width imageData;
          h = height imageData;
          pixels = data imageData;
          totalPixels = nat (w * h);
          s0 = \<lparr>qe_bytes = qoiHeader w h, qe_px_r = 0, qe_px_g = 0, qe_px_b = 0,
                qe_px_a = 255, qe_run = 0, qe_index = replicate (64 * 4) 0\<rparr>;
          s = fold (\<lambda>k. encodePixel (pixels ! (4 * k)) (pixels ! (4 * k + 1))
                            (pixels ! (4 * k + 2)) (pixels ! (4 * k + 3)))
                [0..<totalPixels] s0;
          bytes = (if qe_run s > 0 then emit (qe_bytes s) (QOI_OP_RUN OR (qe_run s - 1))
                   else qe_bytes s)
      in bytes @ [0, 0, 0, 0, 0, 0, 0, 1])"

record QoiDecoder =
  qd_p :: nat
  qd_px_r :: int
  qd_px_g :: int
  qd_px_b :: int
  qd_px_a :: int
  qd_run :: int
  qd_index :: "int list"
  qd_pixels :: "int list"
  qd_pxPos :: nat

text \<open>
  One chunk of the stream, read at \<open>p\<close> when no run is pending: the new pixel and run,
  and the index slot of the new pixel. The loop reads a chunk only while
  \<open>p < bytes.length - 8\<close>, and a chunk has at most five bytes, so every read is inside
  \<open>bytes\<close>.
\<close>

definition readChunk :: "int list \<Rightarrow> QoiDecoder \<Rightarrow> QoiDecoder" where
  "readChunk bytes s =
     (let p = qd_p s;
          b1 = bytes ! p;
          s1 =
            (if b1 = QOI_OP_RGB then
               s\<lparr>qd_p := p + 4, qd_px_r := bytes ! (p + 1), qd_px_g := bytes ! (p + 2),
                 qd_px_b := bytes ! (p + 3)\<rparr>
             else if b1 = QOI_OP_RGBA then
               s\<lparr>qd_p := p + 5, qd_px_r := bytes ! (p + 1), qd_px_g := bytes ! (p + 2),
                 qd_px_b := bytes ! (p + 3), qd_px_a := bytes ! (p + 4)\<rparr>
             else
               (let tag = b1 AND QOI_MASK_2 in
                if tag = QOI_OP_INDEX then
                  (let i = nat ((b1 AND 63) * 4); index = qd_index s
                   in s\<lparr>qd_p := p + 1, qd_px_r := index ! i, qd_px_g := index ! (i + 1),
                        qd_px_b := index ! (i + 2), qd_px_a := index ! (i + 3)\<rparr>)
                else if tag = QOI_OP_DIFF then
                  s\<lparr>qd_p := p + 1,
                    qd_px_r := (qd_px_r s + (drop_bit 4 b1 AND 3) - 2 + 256) AND 255,
                    qd_px_g := (qd_px_g s + (drop_bit 2 b1 AND 3) - 2 + 256) AND 255,
                    qd_px_b := (qd_px_b s + (b1 AND 3) - 2 + 256) AND 255\<rparr>
                else if tag = QOI_OP_LUMA then
                  (let b2 = bytes ! (p + 1);
                       vg = (b1 AND 63) - 32;
                       dr = (drop_bit 4 b2 AND 15) - 8;
                       db = (b2 AND 15) - 8
                   in s\<lparr>qd_p := p + 2,
                        qd_px_r := (qd_px_r s + vg + dr + 256) AND 255,
                        qd_px_g := (qd_px_g s + vg + 256) AND 255,
                        qd_px_b := (qd_px_b s + vg + db + 256) AND 255\<rparr>)
                else if tag = QOI_OP_RUN then
                  s\<lparr>qd_p := p + 1, qd_run := b1 AND 63\<rparr>
                else s\<lparr>qd_p := p + 1\<rparr>));
          indexPos = nat (qoiHash (qd_px_r s1) (qd_px_g s1) (qd_px_b s1) (qd_px_a s1) * 4)
      in s1\<lparr>qd_index := (qd_index s1)[indexPos := qd_px_r s1 mod 256,
                                        indexPos + 1 := qd_px_g s1 mod 256,
                                        indexPos + 2 := qd_px_b s1 mod 256,
                                        indexPos + 3 := qd_px_a s1 mod 256]\<rparr>)"

text \<open>The body of the decoder's loop: a pending run or a chunk, then one pixel written.\<close>

definition decodePixel :: "int list \<Rightarrow> QoiDecoder \<Rightarrow> QoiDecoder" where
  "decodePixel bytes s =
     (let s1 = (if qd_run s > 0 then s\<lparr>qd_run := qd_run s - 1\<rparr> else readChunk bytes s);
          pos = qd_pxPos s1
      in s1\<lparr>qd_pixels := (qd_pixels s1)[pos := clampByte (qd_px_r s1),
                                          pos + 1 := clampByte (qd_px_g s1),
                                          pos + 2 := clampByte (qd_px_b s1),
                                          pos + 3 := clampByte (qd_px_a s1)],
            qd_pxPos := pos + 4\<rparr>)"

text \<open>\<open>while (pxPos < pixels.length && p < bytes.length - 8)\<close>.\<close>

function decodeLoop :: "int list \<Rightarrow> QoiDecoder \<Rightarrow> QoiDecoder" where
  "decodeLoop bytes s =
     (if qd_pxPos s < length (qd_pixels s) \<and> qd_p s < length bytes - 8
      then decodeLoop bytes (decodePixel bytes s)
      else s)"
  by pat_completeness auto
termination
  by (relation "measure (\<lambda>(bytes, s). length (qd_pixels s) - qd_pxPos s)")
    (auto simp: decodePixel_def readChunk_def Let_def)

text \<open>
  \<open>decodeQOI\<close>. The width and the height are assembled with \<open>|\<close> and \<open><<\<close>, so they are
  signed 32-bit values; a typed array of negative length raises \<open>RangeError\<close>.
\<close>

definition decodeQOI :: "int list \<Rightarrow> error + ImageData" where
  "decodeQOI bytes =
     (if length bytes < 14 + 8 then Inl QoiStreamTooSmall
      else if take 4 bytes \<noteq> [113, 111, 105, 102] then Inl InvalidQoiMagic
      else
        let w = toInt32 (push_bit 24 (bytes ! 4) OR push_bit 16 (bytes ! 5)
                           OR push_bit 8 (bytes ! 6) OR bytes ! 7);
            h = toInt32 (push_bit 24 (bytes ! 8) OR push_bit 16 (bytes ! 9)
                           OR push_bit 8 (bytes ! 10) OR bytes ! 11);
            channels = bytes ! 12
        in if channels \<noteq> 4 then Inl OnlyRgbaQoi
           else if w * h * 4 < 0 then Inl RangeError
           else
             let s0 = \<lparr>qd_p = 14, qd_px_r = 0, qd_px_g = 0, qd_px_b = 0, qd_px_a = 255,
                       qd_run = 0, qd_index = replicate (64 * 4) 0,
                       qd_pixels = replicate (nat (w * h * 4)) 0, qd_pxPos = 0\<rparr>;
                 s = decodeLoop bytes s0
             in Inr \<lparr>width = w, height = h, data = qd_pixels s\<rparr>)"

section \<open>Huffman codec with delta and run-length front-end (huffman.ts)\<close>

definition RLE_MARKER :: int where
  "RLE_MARKER = 255"

subsection \<open>Delta and run-length encoding\<close>

text \<open>The loop of \<open>deltaEncode\<close>, with \<open>prev\<close> as its argument.\<close>

fun deltaFrom :: "int \<Rightarrow> int list \<Rightarrow> int list" where
  "deltaFrom prev [] = []"
| "deltaFrom prev (v # vs) =
     (let diff = max (- 128) (min 127 (v - prev))
      in ((diff + 128) AND 255) # deltaFrom v vs)"

definition deltaEncode :: "int list \<Rightarrow> int list" where
  "deltaEncode xs = deltaFrom 0 xs"

text \<open>
  The inner loop of \<open>rleEncode\<close>: \<open>run\<close> grows while the next element equals \<open>v\<close> and
  \<open>run < 255\<close>; \<open>rest\<close> is the input from position \<open>i + run\<close> on.
\<close>

fun runLength :: "int \<Rightarrow> int list \<Rightarrow> nat \<Rightarrow> nat" where
  "runLength v [] run = run"
| "runLength v (x # rest) run =
     (if x = v \<and> run < 255 then runLength v rest (run + 1) else run)"

function rleEncode :: "int list \<Rightarrow> int list" where
  "rleEncode [] = []"
| "rleEncode (v # rest) =
     (let run = runLength v rest 1
      in (if run \<ge> 3 \<or> v = RLE_MARKER then [RLE_MARKER, int run, v] else replicate run v)
         @ rleEncode (drop (run - 1) rest))"
  by pat_completeness auto
termination
  by (relation "measure length") auto

subsection \<open>Code lengths\<close>

text \<open>
  A \<open>Node\<close> of the source is either a leaf (a symbol, no children) or a parent (no
  symbol, two children); the two constructors are the two ways the source creates one.
\<close>

datatype Node =
    Leaf (freq: nat) (symbol: int)
  | Parent (freq: nat) (left: Node) (right: Node)

text \<open>A \<open>CodeLen\<close> \<open>{symbol, len}\<close> is the pair \<open>(symbol, len)\<close>.\<close>

type_synonym CodeLen = "int \<times> nat"

text \<open>
  The frequency \<open>Map\<close>: an association list in insertion order, which is the order a
  JavaScript \<open>Map\<close> iterates in. \<open>countSymbol\<close> is
  \<open>freqs.set(v, (freqs.get(v) || 0) + 1)\<close>.
\<close>

fun countSymbol :: "int \<Rightarrow> (int \<times> nat) list \<Rightarrow> (int \<times> nat) list" where
  "countSymbol v [] = [(v, 1)]"
| "countSymbol v ((k, c) # m) = (if k = v then (k, c + 1) # m else (k, c) # countSymbol v m)"

definition countFreqs :: "int list \<Rightarrow> (int \<times> nat) list" where
  "countFreqs rle = fold countSymbol rle []"

text \<open>
  The insertion of the parent: after the leading nodes of a smaller frequency
  (\<open>while (idx < queue.length && queue[idx].freq < parent.freq) idx++\<close>).
\<close>

fun insertNode :: "Node \<Rightarrow> Node list \<Rightarrow> Node list" where
  "insertNode parent [] = [parent]"
| "insertNode parent (q # queue) =
     (if freq q < freq parent then q # insertNode parent queue else parent # q # queue)"

lemma length_insertNode [simp]: "length (insertNode parent queue) = Suc (length queue)"
  by (induction queue) simp_all

text \<open>\<open>while (queue.length > 1)\<close>: the two front nodes are replaced by their parent.\<close>

function buildTree :: "Node list \<Rightarrow> Node list" where
  "buildTree [] = []"
| "buildTree [n] = [n]"
| "buildTree (l # r # queue) = buildTree (insertNode (Parent (freq l + freq r) l r) queue)"
  by pat_completeness auto
termination
  by (relation "measure length") auto

text \<open>\<open>walk\<close>: a leaf at depth \<open>d\<close> gets the length \<open>d || 1\<close>.\<close>

fun walk :: "Node \<Rightarrow> nat \<Rightarrow> CodeLen list" where
  "walk (Leaf f s) depth = [(s, if depth = 0 then 1 else depth)]"
| "walk (Parent f l r) depth = walk l (depth + 1) @ walk r (depth + 1)"

text \<open>
  \<open>buildCodeLengths\<close>. \<open>Array.prototype.sort\<close> is stable, as \<open>sort_key\<close> is.
\<close>

definition buildCodeLengths :: "(int \<times> nat) list \<Rightarrow> CodeLen list" where
  "buildCodeLengths freqs =
     (let queue = sort_key freq (map (\<lambda>(s, f). Leaf f s) freqs)
      in case queue of
           [] \<Rightarrow> []
         | [n] \<Rightarrow> [(symbol n, 1)]
         | _ \<Rightarrow> (case buildTree queue of [] \<Rightarrow> [] | tree # _ \<Rightarrow> walk tree 0))"

text \<open>
  The canonical order \<open>(a, b) => a.len === b.len ? a.symbol - b.symbol : a.len - b.len\<close>:
  by length, then by symbol.
\<close>

definition canonicalSort :: "CodeLen list \<Rightarrow> CodeLen list" where
  "canonicalSort codeLens = sort_key (\<lambda>(s, l). (l, s)) codeLens"

subsection \<open>Encoder\<close>

text \<open>\<open>x << n\<close> on 32-bit integers: the shift count is taken modulo 32.\<close>

definition shl32 :: "int \<Rightarrow> int \<Rightarrow> int" where
  "shl32 x n = toInt32 (x * 2 ^ nat (n mod 32))"

text \<open>
  The loop that assigns the canonical codes: \<open>codes\<close> is an \<open>Int32Array\<close>, \<open>lens\<close> an
  \<open>Int8Array\<close> (a length from 128 on is stored as a negative number), both indexed
  by the symbol.
\<close>

fun assignCodes ::
  "CodeLen list \<Rightarrow> bool \<Rightarrow> int \<Rightarrow> int \<Rightarrow> int list \<Rightarrow> int list \<Rightarrow> int list \<times> int list"
where
  "assignCodes [] first code prevLen codes lens = (codes, lens)"
| "assignCodes ((s, l) # rest) first code prevLen codes lens =
     (let code' = (if first then code else shl32 (code + 1) (int l - prevLen))
      in assignCodes rest False code' (int l)
           (codes[nat s := toInt32 code']) (lens[nat s := signExtend8 (int l)]))"

text \<open>
  The output buffer \<open>out\<close> and \<open>outPos\<close>: \<open>bw_out\<close> is \<open>out.slice(0, outPos)\<close>, the bytes
  written so far, and \<open>bw_cap\<close> is \<open>out.length\<close>. Inside the packing loop the buffer is
  doubled when it is full; the final flush stores without that test, and a store at
  \<open>out.length\<close> is lost.
\<close>

record BitWriter =
  bw_out :: "int list"
  bw_cap :: nat
  bw_acc :: int
  bw_pending :: nat

definition pushBit :: "int \<Rightarrow> BitWriter \<Rightarrow> BitWriter" where
  "pushBit b w =
     (let acc = toInt32 (push_bit 1 (bw_acc w) OR b);
          pending = bw_pending w + 1
      in if pending = 8
         then w\<lparr>bw_out := bw_out w @ [acc mod 256],
                bw_cap := (if length (bw_out w) \<ge> bw_cap w then bw_cap w * 2 else bw_cap w),
                bw_acc := 0, bw_pending := 0\<rparr>
         else w\<lparr>bw_acc := acc, bw_pending := pending\<rparr>)"

text \<open>The bits of one symbol: \<open>(c >> b) & 1\<close> for \<open>b\<close> from \<open>l - 1\<close> down to 0.\<close>

definition codeBits :: "int \<Rightarrow> int \<Rightarrow> int list" where
  "codeBits c l = map (\<lambda>b. drop_bit (b mod 32) c AND 1) (rev [0..<nat l])"

definition flushBits :: "BitWriter \<Rightarrow> int list" where
  "flushBits w =
     (if bw_pending w > 0
      then (if length (bw_out w) < bw_cap w
            then bw_out w @ [shl32 (bw_acc w) (8 - int (bw_pending w)) mod 256]
            else bw_out w)
      else bw_out w)"

definition encodeHuffman :: "int list \<Rightarrow> int list" where
  "encodeHuffman xs =
     (if xs = [] then []
      else
        let deltas = deltaEncode xs;
            rle = rleEncode deltas;
            freqs = countFreqs rle;
            codeLens = canonicalSort (buildCodeLengths freqs);
            (codes, lens) = assignCodes codeLens True 0 0 (replicate 256 (- 1)) (replicate 256 0);
            estimatedSize = 1 + length codeLens * 2 + length rle;
            header = (int (length codeLens) mod 256)
                       # concat (map (\<lambda>(s, l). [s mod 256, int l mod 256]) codeLens);
            w0 = \<lparr>bw_out = header, bw_cap = estimatedSize * 2, bw_acc = 0, bw_pending = 0\<rparr>;
            w = fold (\<lambda>s. fold pushBit (codeBits (codes ! nat s) (lens ! nat s))) rle w0
        in flushBits w)"

subsection \<open>Decoder\<close>

text \<open>
  The three \<open>Int32Array(32)\<close> tables, filled with \<open>-1\<close>. A store at an index from 32 on
  is ignored, as \<open>xs[i := v]\<close> is.
\<close>

record Tables =
  minCode :: "int list"
  maxCode :: "int list"
  valPtr :: "int list"

text \<open>\<open>while (currentLen < len) { currentCode <<= 1; currentLen++; }\<close>, for \<open>n\<close> rounds.\<close>

fun shiftCode :: "nat \<Rightarrow> int \<Rightarrow> int" where
  "shiftCode 0 code = code"
| "shiftCode (Suc n) code = shiftCode n (shl32 code 1)"

text \<open>\<open>lenCounts[len]\<close> for \<open>len \<le> 32\<close>: the number of header entries of that length.\<close>

definition lenCount :: "CodeLen list \<Rightarrow> nat \<Rightarrow> nat" where
  "lenCount codeLens l = length (filter (\<lambda>e. snd e = l) codeLens)"

text \<open>
  The loop that fills the tables, over the sorted entries. For a length above 32,
  \<open>lenCounts[len]\<close> is \<open>undefined\<close>: the three stores fall outside the tables, \<open>i\<close>
  becomes \<open>NaN\<close> and the loop ends.
\<close>

function fillTables ::
  "CodeLen list \<Rightarrow> nat \<Rightarrow> int \<Rightarrow> nat \<Rightarrow> nat \<Rightarrow> Tables \<Rightarrow> Tables"
where
  "fillTables codeLens i currentCode currentLen symbolOffset t =
     (if i < length codeLens then
        (let l = snd (codeLens ! i) in
         if l > 32 then t
         else
           let code = shiftCode (l - currentLen) currentCode;
               countForLen = lenCount codeLens l;
               t' = t\<lparr>minCode := (minCode t)[l := toInt32 code],
                      valPtr := (valPtr t)[l := int symbolOffset],
                      maxCode := (maxCode t)[l := toInt32 (code + int countForLen - 1)]\<rparr>
           in fillTables codeLens (i + countForLen) (code + int countForLen)
                (max currentLen l) (symbolOffset + countForLen) t')
      else t)"
  by pat_completeness auto
termination
proof (relation "measure (\<lambda>(codeLens, i, _). length codeLens - i)", goal_cases)
  case 1
  show ?case by simp
next
  case (2 codeLens i currentCode currentLen symbolOffset t l code countForLen)
  then have "codeLens ! i \<in> set (filter (\<lambda>e. snd e = l) codeLens)"
    by simp
  then have "0 < lenCount codeLens l"
    unfolding lenCount_def by (metis length_pos_if_in_set)
  with 2 show ?case by simp
qed

text \<open>
  The bit buffer: \<open>accumulator\<close> is a 32-bit integer, of which the low
  \<open>bitsAvailable\<close> bits are unread. \<open>refill\<close> is
  \<open>while (bitsAvailable < 24 && p < dataLen)\<close>.
\<close>

function refill :: "int list \<Rightarrow> nat \<Rightarrow> int \<Rightarrow> nat \<Rightarrow> nat \<times> int \<times> nat" where
  "refill bytes p accumulator bitsAvailable =
     (if bitsAvailable < 24 \<and> p < length bytes
      then refill bytes (p + 1) (toInt32 (push_bit 8 accumulator OR bytes ! p))
             (bitsAvailable + 8)
      else (p, accumulator, bitsAvailable))"
  by pat_completeness auto
termination
  by (relation "measure (\<lambda>(bytes, p, _). length bytes - p)") auto

text \<open>
  The search for one symbol (\<open>while (true)\<close>): one bit is taken from the accumulator
  (\<open>(accumulator >>> bitsAvailable) & 1\<close>) in each round, until the code is in the range
  of its length, no bit is left, or 30 bits have been read. The result is the symbol
  found, if any, and the bits left. A symbol index outside \<open>symbols\<close> reads
  \<open>undefined\<close>, which the store into \<open>rleStream\<close> turns into 0.
\<close>

function readSymbol ::
  "Tables \<Rightarrow> int list \<Rightarrow> int \<Rightarrow> nat \<Rightarrow> nat \<Rightarrow> int \<Rightarrow> int option \<times> nat"
where
  "readSymbol t symbols accumulator bitsAvailable curLen0 curCode0 =
     (let curLen = curLen0 + 1 in
      if bitsAvailable = 0 then (None, bitsAvailable)
      else
        let bits = bitsAvailable - 1;
            b = drop_bit bits (accumulator mod 2 ^ 32) AND 1;
            curCode = toInt32 (push_bit 1 curCode0 OR b)
        in if maxCode t ! curLen \<noteq> - 1 \<and> curCode \<le> maxCode t ! curLen then
             (let symbolIndex = valPtr t ! curLen + (curCode - minCode t ! curLen);
                  s = (if 0 \<le> symbolIndex \<and> symbolIndex < int (length symbols)
                       then symbols ! nat symbolIndex else 0)
              in (Some s, bits))
           else if curLen \<ge> 30 then (None, bits)
           else readSymbol t symbols accumulator bits curLen curCode)"
  by pat_completeness auto
termination
  by (relation "measure (\<lambda>(t, symbols, accumulator, bitsAvailable, _). bitsAvailable)") auto

declare readSymbol.simps [simp del] refill.simps [simp del] fillTables.simps [simp del]

lemma readSymbol_consumes:
  "readSymbol t symbols accumulator bitsAvailable curLen curCode = (Some s, bits)
     \<Longrightarrow> bits < bitsAvailable"
proof (induction t symbols accumulator bitsAvailable curLen curCode
    rule: readSymbol.induct)
  case (1 t symbols accumulator bitsAvailable curLen0 curCode0)
  from "1.prems" show ?case
    using "1.IH"
    by (subst (asm) readSymbol.simps) (fastforce simp: Let_def split: if_splits)
qed

lemma refill_bits:
  "refill bytes p accumulator bitsAvailable = (p', accumulator', bits')
     \<Longrightarrow> 8 * (length bytes - p') + bits' = 8 * (length bytes - p) + bitsAvailable"
proof (induction bytes p accumulator bitsAvailable rule: refill.induct)
  case (1 bytes p accumulator bitsAvailable)
  show ?case
  proof (cases "bitsAvailable < 24 \<and> p < length bytes")
    case True
    with "1.prems" have "refill bytes (p + 1) (toInt32 (push_bit 8 accumulator OR bytes ! p))
             (bitsAvailable + 8) = (p', accumulator', bits')"
      by (subst (asm) refill.simps) simp
    from "1.IH" [OF True this] True show ?thesis by arith
  next
    case False
    with "1.prems" show ?thesis by (subst (asm) refill.simps) auto
  qed
qed

text \<open>
  The main loop \<open>while (p < dataLen || bitsAvailable > 0)\<close>. \<open>rleStream\<close> has
  \<open>2 * expectedLength\<close> bytes and the loop ends when they are filled, so the model
  keeps the bytes stored so far (\<open>rlePos\<close> is their number).
\<close>

function decodeStream ::
  "Tables \<Rightarrow> int list \<Rightarrow> nat \<Rightarrow> nat \<Rightarrow> int list \<Rightarrow> nat \<Rightarrow> int \<Rightarrow> nat \<Rightarrow> int list
     \<Rightarrow> int list"
where
  "decodeStream t symbols startLen expectedLength bytes p accumulator bitsAvailable rleStream =
     (if p < length bytes \<or> bitsAvailable > 0 then
        (case refill bytes p accumulator bitsAvailable of
           (p1, acc1, bits1) \<Rightarrow>
             if bits1 < startLen \<and> p1 \<ge> length bytes then rleStream
             else
               (case readSymbol t symbols acc1 bits1 0 0 of
                  (None, bits2) \<Rightarrow> rleStream
                | (Some s, bits2) \<Rightarrow>
                    (let rleStream' = rleStream @ [s mod 256]
                     in if length rleStream' \<ge> expectedLength * 2 then rleStream'
                        else decodeStream t symbols startLen expectedLength bytes
                               p1 acc1 bits2 rleStream')))
      else rleStream)"
  by pat_completeness auto
termination
proof (relation "measure (\<lambda>(t, symbols, startLen, expectedLength, bytes, p, accumulator,
    bitsAvailable, rleStream). 8 * (length bytes - p) + bitsAvailable)", goal_cases)
  case 1
  show ?case by simp
next
  case 2
  then show ?case
    using refill_bits [OF sym] readSymbol_consumes [OF sym]
    by fastforce
qed

declare decodeStream.simps [simp del]

text \<open>
  The run of an \<open>RLE_MARKER\<close> group: \<open>run\<close> times the delta \<open>v - 128\<close> is added to the
  running value, which is clamped to \<open>[0, 255]\<close>; the loop stops when
  \<open>expectedLength\<close> values are out.
\<close>

fun applyRun :: "nat \<Rightarrow> int \<Rightarrow> nat \<Rightarrow> int list \<Rightarrow> int \<Rightarrow> int list \<times> int" where
  "applyRun 0 v expectedLength out prevVal = (out, prevVal)"
| "applyRun (Suc run) v expectedLength out prevVal =
     (if length out \<ge> expectedLength then (out, prevVal)
      else let pixel = clampByte (prevVal + (v - 128))
           in applyRun run v expectedLength (out @ [pixel]) pixel)"

text \<open>
  The fused run-length and delta decoding loop over the decoded symbols; \<open>out\<close> is
  \<open>finalOut.slice(0, outIdx)\<close>.
\<close>

fun rleDeltaDecode :: "int list \<Rightarrow> nat \<Rightarrow> int list \<Rightarrow> int \<Rightarrow> int list" where
  "rleDeltaDecode [] expectedLength out prevVal = out"
| "rleDeltaDecode (val # rest) expectedLength out prevVal =
     (if length out \<ge> expectedLength then out
      else if val = RLE_MARKER then
        (case rest of
           run # v # rest' \<Rightarrow>
             (case applyRun (nat run) v expectedLength out prevVal of
                (out', prevVal') \<Rightarrow> rleDeltaDecode rest' expectedLength out' prevVal')
         | _ \<Rightarrow> out)
      else
        (let pixel = clampByte (prevVal + (val - 128))
         in rleDeltaDecode rest expectedLength (out @ [pixel]) pixel))"

text \<open>
  The values the three stages produce for \<open>data\<close>: \<open>finalOut.slice(0, outIdx)\<close> at the
  end of \<open>decodeHuffman\<close>. When the header announces more entries than \<open>data\<close> holds,
  the missing bytes read as \<open>undefined\<close>; no statement of the table construction raises
  on them, and \<open>p = 1 + 2 * count\<close> is then beyond \<open>dataLen\<close> with \<open>bitsAvailable = 0\<close>,
  so the main loop is not entered, \<open>rlePos\<close> stays 0 and no value is produced.
\<close>

definition decodedValues :: "int list \<Rightarrow> nat \<Rightarrow> int list" where
  "decodedValues bytes expectedLength =
     (let count = nat (bytes ! 0) in
      if length bytes < 1 + 2 * count then []
      else
        let codeLens = canonicalSort
              (map (\<lambda>i. (bytes ! (1 + 2 * i), nat (bytes ! (2 + 2 * i)))) [0..<count]);
            symbols = map fst codeLens;
            startLen = snd (codeLens ! 0);
            t0 = \<lparr>minCode = replicate 32 (- 1), maxCode = replicate 32 (- 1),
                  valPtr = replicate 32 (- 1)\<rparr>;
            t = fillTables codeLens 0 0 startLen 0 t0;
            rleStream = decodeStream t symbols startLen expectedLength bytes
                          (1 + 2 * count) 0 0 []
        in rleDeltaDecode rleStream expectedLength [] 0)"

text \<open>
  \<open>decodeHuffman\<close>, in the order of the source. With \<open>count = 0\<close> the array \<open>codeLens\<close>
  is empty and \<open>codeLens[0].len\<close> raises \<open>TypeError\<close>. After the tables,
  \<open>new Uint8Array(expectedLength * 2)\<close> raises \<open>RangeError\<close> when the engine does not
  create a typed array of that length. That limit differs between engines, so it is the
  parameter \<open>maxLength\<close> of the model: the largest length for which the engine creates
  a typed array (the tables, of at most 255 entries, are within it). The output is
  \<open>finalOut\<close>: the values produced, then the zeros the array was created with.
\<close>

definition decodeHuffman :: "int \<Rightarrow> int list \<Rightarrow> nat \<Rightarrow> error + int list" where
  "decodeHuffman maxLength bytes expectedLength =
     (if bytes = [] \<or> expectedLength = 0 then Inr []
      else if nat (bytes ! 0) = 0 then Inl TypeError
      else if int expectedLength * 2 > maxLength then Inl RangeError
      else
        let out = decodedValues bytes expectedLength
        in Inr (out @ replicate (expectedLength - length out) 0))"

section \<open>Nodal transform and preview (algorithm.ts)\<close>

text \<open>
  The colour transform, the block averages and the interpolation are floating-point
  computations. They are written here over the reals, each operation exact, where the
  source rounds every operation to a double; the theorems below are about the alpha
  channel, the dimensions and the lossless branch, which no rounding touches.
  \<open>blockSize\<close> and \<open>discardBits\<close> are integers, on which \<open>Math.floor\<close> is the
  identity.
\<close>

record ProcessResult =
  processedImageData :: ImageData
  nodalPointsY :: "int list"
  nodalPointsCb :: "int list"
  nodalPointsCr :: "int list"

text \<open>\<open>Math.round\<close>: to the nearest integer, a tie upwards.\<close>

definition mathRound :: "real \<Rightarrow> int" where
  "mathRound v = \<lfloor>v + 1 / 2\<rfloor>"

text \<open>
  The conversion of a store into a \<open>Uint8ClampedArray\<close>: clamped to \<open>[0, 255]\<close> and
  rounded to the nearest integer, a tie to the even one.
\<close>

definition toUint8Clamp :: "real \<Rightarrow> int" where
  "toUint8Clamp v =
     (if v \<le> 0 then 0
      else if v \<ge> 255 then 255
      else let f = \<lfloor>v\<rfloor> in
        if of_int f + 1 / 2 < v then f + 1
        else if v < of_int f + 1 / 2 then f
        else if even f then f else f + 1)"

definition ceilDiv :: "int \<Rightarrow> int \<Rightarrow> int" where
  "ceilDiv a b = - ((- a) div b)"  \<comment> \<open>\<open>Math.ceil(a / b)\<close> for \<open>b > 0\<close>\<close>

definition quantize :: "int \<Rightarrow> real \<Rightarrow> int" where
  "quantize discard v =
     (let rounded = mathRound v
      in if discard = 0 then rounded
         else push_bit (nat discard) (drop_bit (nat discard) rounded) AND 255)"

text \<open>The pixels of the tile \<open>(gx, gy)\<close>, in the order of the two inner loops.\<close>

definition tilePixels :: "nat \<Rightarrow> nat \<Rightarrow> nat \<Rightarrow> nat \<Rightarrow> nat \<Rightarrow> (nat \<times> nat) list" where
  "tilePixels w h block gx gy =
     (let xStart = gx * block;
          yStart = gy * block;
          xEnd = min w (xStart + block);
          yEnd = min h (yStart + block)
      in concat (map (\<lambda>y. map (\<lambda>x. (x, y)) [xStart..<xEnd]) [yStart..<yEnd]))"

definition lumaY :: "int \<Rightarrow> int \<Rightarrow> int \<Rightarrow> real" where
  "lumaY r g b = 0.299 * of_int r + 0.587 * of_int g + 0.114 * of_int b"

definition chromaCb :: "int \<Rightarrow> int \<Rightarrow> int \<Rightarrow> real" where
  "chromaCb r g b = - 0.1687 * of_int r - 0.3313 * of_int g + 0.5 * of_int b + 128"

definition chromaCr :: "int \<Rightarrow> int \<Rightarrow> int \<Rightarrow> real" where
  "chromaCr r g b = 0.5 * of_int r - 0.4187 * of_int g - 0.0813 * of_int b + 128"

text \<open>
  Steps 1 to 3 for one tile: the node \<open>(Y, Cb, Cr)\<close>; an empty tile leaves the zeros
  the arrays were filled with.
\<close>

definition nodeOf :: "int list \<Rightarrow> nat \<Rightarrow> nat \<Rightarrow> nat \<Rightarrow> int \<Rightarrow> nat \<Rightarrow> nat \<Rightarrow> int \<times> int \<times> int" where
  "nodeOf src w h block discard gx gy =
     (let ps = tilePixels w h block gx gy;
          chan = (\<lambda>f. sum_list (map (\<lambda>(x, y).
                   let offset = (y * w + x) * 4
                   in f (src ! offset) (src ! (offset + 1)) (src ! (offset + 2))) ps));
          count = real (length ps)
      in if ps = [] then (0, 0, 0)
         else (quantize discard (chan lumaY / count),
               quantize discard (min 255 (max 0 (chan chromaCb / count))),
               quantize discard (min 255 (max 0 (chan chromaCr / count)))))"

text \<open>The node of tile \<open>(gx, gy)\<close> is stored at \<open>gy * gridWidth + gx\<close>.\<close>

definition nodalGrid :: "int list \<Rightarrow> nat \<Rightarrow> nat \<Rightarrow> nat \<Rightarrow> int \<Rightarrow> nat \<Rightarrow> nat \<Rightarrow> (int \<times> int \<times> int) list" where
  "nodalGrid src w h block discard gridWidth gridHeight =
     concat (map (\<lambda>gy. map (\<lambda>gx. nodeOf src w h block discard gx gy) [0..<gridWidth])
               [0..<gridHeight])"

definition putPixel :: "nat \<Rightarrow> real \<Rightarrow> real \<Rightarrow> real \<Rightarrow> int list \<Rightarrow> int list" where
  "putPixel offset r g b out =
     out[offset := toUint8Clamp (min 255 (max 0 r)),
         offset + 1 := toUint8Clamp (min 255 (max 0 g)),
         offset + 2 := toUint8Clamp (min 255 (max 0 b)),
         offset + 3 := toUint8Clamp 255]"

text \<open>The flat fill of the tile \<open>(gx, gy)\<close> from its node.\<close>

definition fillTile ::
  "int list \<Rightarrow> int list \<Rightarrow> int list \<Rightarrow> nat \<Rightarrow> nat \<Rightarrow> nat \<Rightarrow> nat \<Rightarrow> nat \<Rightarrow> nat \<Rightarrow> int list \<Rightarrow> int list"
where
  "fillTile nodalY nodalCb nodalCr w h block gridWidth gx gy out =
     (let i = gy * gridWidth + gx;
          Yv = real_of_int (nodalY ! i);
          Cbv = real_of_int (nodalCb ! i - 128);
          Crv = real_of_int (nodalCr ! i - 128);
          r = Yv + 1.402 * Crv;
          g = Yv - 0.34414 * Cbv - 0.71414 * Crv;
          b = Yv + 1.772 * Cbv
      in fold (\<lambda>(x, y). putPixel ((y * w + x) * 4) r g b) (tilePixels w h block gx gy) out)"

definition lerp :: "real \<Rightarrow> real \<Rightarrow> real \<Rightarrow> real" where
  "lerp a b t = a + (b - a) * t"

text \<open>The bilinear interpolation of the pixel \<open>(x, y)\<close>.\<close>

definition smoothPixel ::
  "int list \<Rightarrow> int list \<Rightarrow> int list \<Rightarrow> nat \<Rightarrow> nat \<Rightarrow> nat \<Rightarrow> nat \<Rightarrow> nat \<Rightarrow> nat \<Rightarrow> nat
     \<Rightarrow> int list \<Rightarrow> int list"
where
  "smoothPixel nodalY nodalCb nodalCr w h block gridWidth gridHeight x y out =
     (let gy = y div block;
          gy1 = nat (min (int gy + 1) (int gridHeight - 1));
          y0 = gy * block;
          y1 = nat (min (int h - 1) (int ((gy + 1) * block)));
          ty = (if y1 = y0 then 0 else (real y - real y0) / (real y1 - real y0));
          gx = x div block;
          gx1 = nat (min (int gx + 1) (int gridWidth - 1));
          x0 = gx * block;
          x1 = nat (min (int w - 1) (int ((gx + 1) * block)));
          tx = (if x1 = x0 then 0 else (real x - real x0) / (real x1 - real x0));
          idx00 = gy * gridWidth + gx;
          idx10 = gy * gridWidth + gx1;
          idx01 = gy1 * gridWidth + gx;
          idx11 = gy1 * gridWidth + gx1;
          bil = (\<lambda>nodal. lerp (lerp (real_of_int (nodal ! idx00)) (real_of_int (nodal ! idx10)) tx)
                            (lerp (real_of_int (nodal ! idx01)) (real_of_int (nodal ! idx11)) tx) ty);
          yVal = bil nodalY;
          cbVal = bil nodalCb - 128;
          crVal = bil nodalCr - 128;
          r = yVal + 1.402 * crVal;
          g = yVal - 0.34414 * cbVal - 0.71414 * crVal;
          b = yVal + 1.772 * cbVal
      in putPixel ((y * w + x) * 4) r g b out)"

text \<open>
  \<open>processImageFrame\<close>. \<open>new Array(gridWidth * gridHeight)\<close> raises \<open>RangeError\<close> for a
  negative length.
\<close>

definition processImageFrame :: "ImageData \<Rightarrow> int \<Rightarrow> int \<Rightarrow> bool \<Rightarrow> error + ProcessResult" where
  "processImageFrame imageData blockSize discardBits smooth =
     (let src = data imageData;
          block = max 2 blockSize;
          discard = min 6 (max 0 discardBits);
          gridWidth = ceilDiv (width imageData) block;
          gridHeight = ceilDiv (height imageData) block
      in if gridWidth * gridHeight < 0 then Inl RangeError
         else
           let w = nat (width imageData);
               h = nat (height imageData);
               gw = nat gridWidth;
               gh = nat gridHeight;
               nodes = nodalGrid src w h (nat block) discard gw gh;
               nodalY = map fst nodes;
               nodalCb = map (fst \<circ> snd) nodes;
               nodalCr = map (snd \<circ> snd) nodes;
               blank = replicate (length src) 0;
               outputData =
                 (if discard = 0 then src
                  else if \<not> smooth then
                    fold (\<lambda>gy. fold (\<lambda>gx. fillTile nodalY nodalCb nodalCr w h (nat block) gw gx gy)
                                  [0..<gw]) [0..<gh] blank
                  else
                    fold (\<lambda>y. fold (\<lambda>x. smoothPixel nodalY nodalCb nodalCr w h (nat block) gw gh x y)
                                  [0..<w]) [0..<h] blank)
           in Inr \<lparr>processedImageData =
                      \<lparr>width = width imageData, height = height imageData, data = outputData\<rparr>,
                    nodalPointsY = nodalY, nodalPointsCb = nodalCb, nodalPointsCr = nodalCr\<rparr>)"

section \<open>Pipeline (route.ts, decode.ts)\<close>

text \<open>The codec steps of the \<open>POST\<close> handler, from the decoded upload to the container.\<close>

definition encodeImage :: "ImageData \<Rightarrow> int \<Rightarrow> int \<Rightarrow> bool \<Rightarrow> error + int list" where
  "encodeImage imageData blockSize discardBits smooth =
     (case processImageFrame imageData blockSize discardBits smooth of
        Inl e \<Rightarrow> Inl e
      | Inr processed \<Rightarrow>
          let residual = buildResidualImage (processedImageData processed);
              qoiBytes = encodeQOI residual;
              huffmanY = encodeHuffman (nodalPointsY processed);
              huffmanCb = encodeHuffman (nodalPointsCb processed);
              huffmanCr = encodeHuffman (nodalPointsCr processed)
          in Inr (buildContainer
                    \<lparr>in_width = width imageData, in_height = height imageData,
                     in_blockSize = blockSize, in_discardBits = discardBits,
                     in_smooth = smooth, in_qoi = qoiBytes, in_huffmanY = huffmanY,
                     in_huffmanCb = huffmanCb, in_huffmanCr = huffmanCr\<rparr>))"

record DecodedContainer =
  dc_imageData :: ImageData
  dc_width :: int
  dc_height :: int
  dc_blockSize :: int
  dc_discardBits :: int
  dc_smooth :: bool
  dc_qoiSize :: nat
  dc_nodalSize :: nat
  dc_totalSize :: nat
  dc_nodalPointsY :: "int list"
  dc_nodalPointsCb :: "int list"
  dc_nodalPointsCr :: "int list"

text \<open>
  \<open>decodeContainerToImage\<close>; \<open>maxLength\<close> is the limit of the engine that
  \<open>decodeHuffman\<close> allocates against.
\<close>

definition decodeContainerToImage :: "int \<Rightarrow> int list \<Rightarrow> error + DecodedContainer" where
  "decodeContainerToImage maxLength buffer =
     (case parseContainer buffer of
        Inl e \<Rightarrow> Inl e
      | Inr parsed \<Rightarrow>
          let gridWidth = ceilDiv (pc_width parsed) (max 2 (pc_blockSize parsed));
              gridHeight = ceilDiv (pc_height parsed) (max 2 (pc_blockSize parsed));
              nodeCount = nat (gridWidth * gridHeight)
          in case decodeHuffman maxLength (pc_huffmanY parsed) nodeCount of
               Inl e \<Rightarrow> Inl e
             | Inr nodalY \<Rightarrow>
          (case decodeHuffman maxLength (pc_huffmanCb parsed) nodeCount of
               Inl e \<Rightarrow> Inl e
             | Inr nodalCb \<Rightarrow>
          (case decodeHuffman maxLength (pc_huffmanCr parsed) nodeCount of
               Inl e \<Rightarrow> Inl e
             | Inr nodalCr \<Rightarrow>
          (case decodeQOI (pc_qoi parsed) of
               Inl e \<Rightarrow> Inl e
             | Inr residualImage \<Rightarrow>
                 if width residualImage \<noteq> pc_width parsed
                    \<or> height residualImage \<noteq> pc_height parsed
                 then Inl QoiDimensionMismatch
                 else Inr \<lparr>dc_imageData = decodePaethResidual residualImage,
                           dc_width = pc_width parsed, dc_height = pc_height parsed,
                           dc_blockSize = pc_blockSize parsed,
                           dc_discardBits = pc_discardBits parsed,
                           dc_smooth = pc_smooth parsed,
                           dc_qoiSize = length (pc_qoi parsed),
                           dc_nodalSize = length (pc_huffmanY parsed)
                             + length (pc_huffmanCb parsed) + length (pc_huffmanCr parsed),
                           dc_totalSize = pc_totalSize parsed,
                           dc_nodalPointsY = nodalY, dc_nodalPointsCb = nodalCb,
                           dc_nodalPointsCr = nodalCr\<rparr>))))"

section \<open>Predicates used in the proofs\<close>

text \<open>The alpha byte of pixel \<open>k\<close> of a buffer is 255.\<close>

definition alphaSet :: "nat \<Rightarrow> int list \<Rightarrow> bool" where
  "alphaSet k out \<longleftrightarrow> out ! (4 * k + 3) = 255"

text \<open>A buffer of \<open>n\<close> bytes.\<close>

definition okBuf :: "nat \<Rightarrow> int list \<Rightarrow> bool" where
  "okBuf n out \<longleftrightarrow> length out = n \<and> list_all isByte out"

section \<open>Paeth predictor: the inverse undoes the forward pass\<close>

lemma and_255_mod: "(x::int) AND 255 = x mod 256"
proof -
  have "x AND mask 8 = x mod 2 ^ 8"
    by (simp only: flip: take_bit_eq_mask) (simp add: take_bit_eq_mod)
  then show ?thesis by (simp add: mask_eq_exp_minus_1)
qed

lemma clampByte_id: "isByte v \<Longrightarrow> clampByte v = v"
  by (simp add: isByte_def clampByte_def)

lemma isByte_mod: "isByte (x mod 256)"
  by (simp add: isByte_def)

lemma raster_row:
  "fold (\<lambda>x. f x y) [0..<w] s = fold (\<lambda>k. f (k mod w) (k div w)) [y * w..<y * w + w] s"
proof -
  have "[y * w..<y * w + w] = map (\<lambda>x. x + y * w) [0..<w]"
    by (simp add: map_add_upt add.commute)
  then have "fold (\<lambda>k. f (k mod w) (k div w)) [y * w..<y * w + w] s
      = fold ((\<lambda>k. f (k mod w) (k div w)) \<circ> (\<lambda>x. x + y * w)) [0..<w] s"
    by (simp add: fold_map)
  also have "\<dots> = fold (\<lambda>x. f x y) [0..<w] s"
    by (rule fold_cong) auto
  finally show ?thesis by simp
qed

lemma raster_fold:
  "fold (\<lambda>y. fold (\<lambda>x. f x y) [0..<w]) [0..<h] s
     = fold (\<lambda>k. f (k mod w) (k div w)) [0..<h * w] s"
proof (induction h)
  case 0
  show ?case by simp
next
  case (Suc h)
  have "[0..<Suc h * w] = [0..<h * w] @ [h * w..<h * w + w]"
    using upt_add_eq_append [of 0 "h * w" w] by (simp add: add.commute)
  then show ?case
    using Suc raster_row [of f h w] by simp
qed


lemma idx_raster: "idx w (k mod w) (k div w) = 4 * k"
  by (simp add: idx_def)

lemma idx_left: "0 < x \<Longrightarrow> c < 4 \<Longrightarrow> idx w (x - 1) y + c < 4 * (y * w + x)"
  by (cases x) (simp_all add: idx_def)

lemma idx_up: "0 < y \<Longrightarrow> x < w \<Longrightarrow> c < 4 \<Longrightarrow> idx w x (y - 1) + c < 4 * (y * w + x)"
  by (cases y) (simp_all add: idx_def)

lemma idx_upleft:
  "0 < x \<Longrightarrow> 0 < y \<Longrightarrow> c < 4 \<Longrightarrow> idx w (x - 1) (y - 1) + c < 4 * (y * w + x)"
  by (cases x; cases y) (simp_all add: idx_def)

lemma pred_agree_xy:
  assumes "\<forall>i < 4 * (y * w + x). a ! i = b ! i" "c < 4" "x < w"
  shows "pred a w x y c = pred b w x y c"
proof -
  have A: "0 < x \<Longrightarrow> a ! (idx w (x - 1) y + c) = b ! (idx w (x - 1) y + c)"
    using assms(1,2) idx_left [of x c w y] by blast
  have B: "0 < y \<Longrightarrow> a ! (idx w x (y - 1) + c) = b ! (idx w x (y - 1) + c)"
    using assms idx_up [of y x w c] by blast
  have C: "0 < x \<Longrightarrow> 0 < y \<Longrightarrow> a ! (idx w (x - 1) (y - 1) + c) = b ! (idx w (x - 1) (y - 1) + c)"
    using assms(1,2) idx_upleft [of x y c w] by blast
  show ?thesis
    unfolding pred_def Let_def using A B C by presburger
qed

lemma pred_agree:
  assumes "\<forall>i < 4 * k. a ! i = b ! i" "c < 4" "0 < w"
  shows "pred a w (k mod w) (k div w) c = pred b w (k mod w) (k div w) c"
  using pred_agree_xy [of "k div w" w "k mod w" a b c] assms by simp


lemma residualPixel_length [simp]: "length (residualPixel src w x y out) = length out"
  by (simp add: residualPixel_def Let_def)

lemma reconstructPixel_length [simp]: "length (reconstructPixel res w x y out) = length out"
  by (simp add: reconstructPixel_def Let_def)

lemma isByte_nth: "list_all isByte xs \<Longrightarrow> i < length xs \<Longrightarrow> isByte (xs ! i)"
  by (simp add: list_all_length)

lemma residualPixel_nth:
  assumes "4 * k + 3 < length out" "length out = length src" "list_all isByte src"
  shows "residualPixel src w (k mod w) (k div w) out ! i =
           (if 4 * k \<le> i \<and> i < 4 * k + 4 then residualAt src w k (i - 4 * k) else out ! i)"
proof -
  have a: "clampByte (src ! (4 * k + 3)) = src ! (4 * k + 3)"
    using assms by (simp add: clampByte_id isByte_nth)
  have m: "clampByte (v mod 256) = v mod 256" for v
    by (simp add: clampByte_id isByte_mod)
  consider "i < 4 * k" | "i = 4 * k" | "i = 4 * k + 1" | "i = 4 * k + 2" | "i = 4 * k + 3"
    | "4 * k + 4 \<le> i" by linarith
  then show ?thesis
    using assms(1)
    by cases (simp_all add: residualPixel_def Let_def idx_raster and_255_mod a m residualAt_def)
qed

lemma residual_fold:
  assumes "length src = 4 * n" "list_all isByte src" "m \<le> n"
  shows "length (fold (\<lambda>k. residualPixel src w (k mod w) (k div w)) [0..<m] (replicate (length src) 0)) = length src
    \<and> (\<forall>j<m. \<forall>c<4. fold (\<lambda>k. residualPixel src w (k mod w) (k div w)) [0..<m] (replicate (length src) 0) ! (4 * j + c) = residualAt src w j c)"
  using assms(3)
proof (induction m)
  case 0
  show ?case by simp
next
  case (Suc m)
  let ?o = "fold (\<lambda>k. residualPixel src w (k mod w) (k div w)) [0..<m] (replicate (length src) 0)"
  from Suc have IH: "length ?o = length src" "\<forall>j<m. \<forall>c<4. ?o ! (4 * j + c) = residualAt src w j c"
    by simp_all
  have b: "4 * m + 3 < length ?o" using Suc.prems assms(1) IH(1) by simp
  have "residualPixel src w (m mod w) (m div w) ?o ! (4 * j + c) = residualAt src w j c"
    if "j < Suc m" "c < 4" for j c
  proof (cases "j = m")
    case True
    then show ?thesis using that residualPixel_nth [OF b IH(1) assms(2), of w "4 * m + c"] by simp
  next
    case False
    then have "j < m" using that by simp
    then have "\<not> (4 * m \<le> 4 * j + c \<and> 4 * j + c < 4 * m + 4)" using that(2) by linarith
    then show ?thesis
      using residualPixel_nth [OF b IH(1) assms(2), of w "4 * j + c"] IH(2) \<open>j < m\<close> that(2)
      by simp
  qed
  then show ?case using IH(1) by simp
qed


lemma unresidual: "isByte s \<Longrightarrow> clampByte ((((s - p + 256) mod 256) + p) AND 255) = s"
proof -
  assume s: "isByte s"
  have "(((s - p + 256) mod 256) + p) mod 256 = (s + 256) mod 256"
    by (metis (no_types, opaque_lifting) add.commute add_diff_eq diff_add_cancel mod_add_right_eq)
  also have "\<dots> = s" using s by (simp add: isByte_def)
  finally show ?thesis using s by (simp add: and_255_mod clampByte_id)
qed

lemma reconstructPixel_agree:
  assumes len: "length out = length src"
    and below: "\<forall>i<4 * k. out ! i = src ! i"
    and inr: "4 * k + 3 < length src"
    and w: "0 < w"
    and bytes: "list_all isByte src"
    and res: "\<forall>c<4. res ! (4 * k + c) = residualAt src w k c"
  shows "\<forall>i<4 * Suc k. reconstructPixel res w (k mod w) (k div w) out ! i = src ! i"
proof -
  let ?x = "k mod w" and ?y = "k div w"
  define out1 where "out1 = out[4 * k := src ! (4 * k)]"
  define out2 where "out2 = out1[4 * k + 1 := src ! (4 * k + 1)]"
  define out3 where "out3 = out2[4 * k + 2 := src ! (4 * k + 2)]"
  define out4 where "out4 = out3[4 * k + 3 := src ! (4 * k + 3)]"
  have b: "isByte (src ! (4 * k + c))" if "c < 4" for c
    using that inr bytes by (simp add: isByte_nth)
  have r: "res ! (4 * k + c) = (src ! (4 * k + c) - pred src w ?x ?y c + 256) mod 256"
    if "c < 3" for c using res that by (simp add: residualAt_def)
  have r3: "res ! (4 * k + 3) = src ! (4 * k + 3)" using res by (simp add: residualAt_def)
  have a0: "\<forall>i<4 * k. out ! i = src ! i" by (rule below)
  have a1: "\<forall>i<4 * k. out1 ! i = src ! i" using below by (simp add: out1_def)
  have a2: "\<forall>i<4 * k. out2 ! i = src ! i" using a1 by (simp add: out2_def)
  have p0: "pred out w ?x ?y 0 = pred src w ?x ?y 0" using pred_agree [OF a0 _ w] by simp
  have p1: "pred out1 w ?x ?y 1 = pred src w ?x ?y 1" using pred_agree [OF a1 _ w] by simp
  have p2: "pred out2 w ?x ?y 2 = pred src w ?x ?y 2" using pred_agree [OF a2 _ w] by simp
  have v0: "clampByte ((res ! (4 * k) + pred out w ?x ?y 0) AND 255) = src ! (4 * k)"
    using r [of 0] b [of 0] unresidual [of "src ! (4 * k)" "pred src w ?x ?y 0"] p0 by simp
  have v1: "clampByte ((res ! (4 * k + 1) + pred out1 w ?x ?y 1) AND 255) = src ! (4 * k + 1)"
    using r [of 1] b [of 1] unresidual [of "src ! (4 * k + 1)" "pred src w ?x ?y 1"] p1 by simp
  have v2: "clampByte ((res ! (4 * k + 2) + pred out2 w ?x ?y 2) AND 255) = src ! (4 * k + 2)"
    using r [of 2] b [of 2] unresidual [of "src ! (4 * k + 2)" "pred src w ?x ?y 2"] p2 by simp
  have v3: "clampByte (res ! (4 * k + 3)) = src ! (4 * k + 3)"
    using b [of 3] by (simp add: r3 clampByte_id)
  have eq: "reconstructPixel res w ?x ?y out = out4"
    unfolding reconstructPixel_def Let_def idx_raster
    by (simp only: v0 v1 v2 v3 flip: out1_def out2_def out3_def out4_def)
  show ?thesis
  proof (intro allI impI)
    fix i assume "i < 4 * Suc k"
    then have "i < 4 * k \<or> i = 4 * k \<or> i = 4 * k + 1 \<or> i = 4 * k + 2 \<or> i = 4 * k + 3"
      by simp linarith
    then consider "i < 4 * k" | "i = 4 * k" | "i = 4 * k + 1" | "i = 4 * k + 2" | "i = 4 * k + 3"
      by blast
    then show "reconstructPixel res w ?x ?y out ! i = src ! i"
      using inr len below
      by cases (simp_all add: eq out4_def out3_def out2_def out1_def)
  qed
qed


lemma reconstruct_fold:
  assumes "length src = 4 * n" "list_all isByte src" "m \<le> n" "0 < w"
    and "length res = length src"
    and "\<forall>j<n. \<forall>c<4. res ! (4 * j + c) = residualAt src w j c"
  shows "length (fold (\<lambda>k. reconstructPixel res w (k mod w) (k div w)) [0..<m] (replicate (length res) 0)) = length src
    \<and> (\<forall>i<4 * m. fold (\<lambda>k. reconstructPixel res w (k mod w) (k div w)) [0..<m] (replicate (length res) 0) ! i = src ! i)"
  using assms(3)
proof (induction m)
  case 0
  show ?case using assms(5) by simp
next
  case (Suc m)
  let ?o = "fold (\<lambda>k. reconstructPixel res w (k mod w) (k div w)) [0..<m] (replicate (length res) 0)"
  from Suc have IH: "length ?o = length src" "\<forall>i<4 * m. ?o ! i = src ! i"
    by simp_all
  have inr: "4 * m + 3 < length src" using Suc.prems assms(1) by simp
  have r: "\<forall>c<4. res ! (4 * m + c) = residualAt src w m c"
    using assms(6) Suc.prems by simp
  show ?case
    using reconstructPixel_agree [OF IH(1) IH(2) inr assms(4) assms(2) r] IH(1)
    by simp
qed

text \<open>
  Claim C7. For every RGBA image (four bytes per pixel, \<open>width * height\<close> pixels), the
  inverse Paeth reconstruction \<open>decodePaethResidual\<close>, which rebuilds the pixels left to
  right and top to bottom from the already rebuilt neighbours (a missing neighbour is 0,
  alpha is copied), applied to the forward residual \<open>buildResidualImage\<close> of the image
  returns the image itself: same dimensions, same bytes.
\<close>

theorem paeth_roundtrip:
  assumes "validImage img"
  shows "decodePaethResidual (buildResidualImage img) = img"
proof -
  let ?w = "nat (width img)" and ?h = "nat (height img)" and ?src = "data img"
  let ?n = "?h * ?w"
  let ?res = "fold (\<lambda>k. residualPixel ?src ?w (k mod ?w) (k div ?w)) [0..<?n] (replicate (length ?src) 0)"
  let ?out = "fold (\<lambda>k. reconstructPixel ?res ?w (k mod ?w) (k div ?w)) [0..<?n] (replicate (length ?res) 0)"
  have len: "length ?src = 4 * ?n" and bytes: "list_all isByte ?src"
    using assms by (simp_all add: validImage_def mult.commute)
  have R: "length ?res = length ?src"
    "\<forall>j<?n. \<forall>c<4. ?res ! (4 * j + c) = residualAt ?src ?w j c"
    using residual_fold [OF len bytes order_refl, of ?w] by simp_all
  have "?out = ?src"
  proof (cases "?w = 0")
    case True
    then show ?thesis using len by simp
  next
    case False
    then have w: "0 < ?w" by simp
    have O: "length ?out = length ?src" "\<forall>i<4 * ?n. ?out ! i = ?src ! i"
      using reconstruct_fold [OF len bytes order_refl w R] by simp_all
    show ?thesis
      by (rule nth_equalityI) (use O len in simp_all)
  qed
  then show ?thesis
    by (simp add: decodePaethResidual_def buildResidualImage_def Let_def raster_fold)
qed

theorem paeth_roundtrip_witness:
  "validImage \<lparr>width = 2, height = 2,
       data = [0, 0, 0, 255, 64, 64, 64, 255, 128, 128, 128, 255, 255, 255, 255, 255]\<rparr>
   \<and> decodePaethResidual (buildResidualImage \<lparr>width = 2, height = 2,
       data = [0, 0, 0, 255, 64, 64, 64, 255, 128, 128, 128, 255, 255, 255, 255, 255]\<rparr>)
     = \<lparr>width = 2, height = 2,
       data = [0, 0, 0, 255, 64, 64, 64, 255, 128, 128, 128, 255, 255, 255, 255, 255]\<rparr>"
proof -
  have v: "validImage \<lparr>width = 2, height = 2,
       data = [0, 0, 0, 255, 64, 64, 64, 255, 128, 128, 128, 255, 255, 255, 255, 255]\<rparr>"
    by (simp add: validImage_def isByte_def)
  show ?thesis using v paeth_roundtrip [OF v] by simp
qed

section \<open>Container: what \<open>parseContainer\<close> checks\<close>

lemma parseContainer_header:
  assumes "HEADER_SIZE \<le> length buffer" "take 4 buffer = CONTAINER_MAGIC" "buffer ! 4 = 1"
  shows "parseContainer buffer =
           Inr \<lparr>pc_version = 1,
                pc_width = getUint32 buffer 8,
                pc_height = getUint32 buffer 12,
                pc_blockSize = buffer ! 5,
                pc_discardBits = buffer ! 6,
                pc_smooth = (buffer ! 7 = 1),
                pc_qoi = slice buffer 32 (32 + nat (getUint32 buffer 16)),
                pc_huffmanY = slice buffer (32 + nat (getUint32 buffer 16))
                  (32 + nat (getUint32 buffer 16) + nat (getUint32 buffer 20)),
                pc_huffmanCb = slice buffer
                  (32 + nat (getUint32 buffer 16) + nat (getUint32 buffer 20))
                  (32 + nat (getUint32 buffer 16) + nat (getUint32 buffer 20)
                     + nat (getUint32 buffer 24)),
                pc_huffmanCr = slice buffer
                  (32 + nat (getUint32 buffer 16) + nat (getUint32 buffer 20)
                     + nat (getUint32 buffer 24))
                  (32 + nat (getUint32 buffer 16) + nat (getUint32 buffer 20)
                     + nat (getUint32 buffer 24) + nat (getUint32 buffer 28)),
                pc_totalSize = length buffer\<rparr>"
  using assms by (simp add: parseContainer_def HEADER_SIZE_def Let_def)

lemma parseContainer_Inr_iff:
  "(\<exists>p. parseContainer buffer = Inr p) \<longleftrightarrow>
     HEADER_SIZE \<le> length buffer \<and> take 4 buffer = CONTAINER_MAGIC \<and> buffer ! 4 = 1"
  by (auto simp: parseContainer_def HEADER_SIZE_def Let_def)

text \<open>
  Claim C3 (as stated: \<open>parseContainer\<close> raises a format error whenever the four recorded
  section lengths plus 32 differ from the buffer length) fails: this 32-byte buffer
  records a QOI section of 5 bytes, so the lengths announce 37 bytes, and it is parsed
  without error, the QOI section coming out empty.
\<close>

theorem parseContainer_length_counterexample:
  "int (length [75, 77, 82, 49, 1, 8, 0, 1, 0, 0, 0, 1, 0, 0, 0, 1,
                0, 0, 0, 5, 0, 0, 0, 0, 0, 0, 0, 0, 0, 0, 0, 0 :: int]) \<noteq> 32 + 5 + 0 + 0 + 0
   \<and> parseContainer [75, 77, 82, 49, 1, 8, 0, 1, 0, 0, 0, 1, 0, 0, 0, 1,
                     0, 0, 0, 5, 0, 0, 0, 0, 0, 0, 0, 0, 0, 0, 0, 0]
     = Inr \<lparr>pc_version = 1, pc_width = 1, pc_height = 1, pc_blockSize = 8,
            pc_discardBits = 0, pc_smooth = True, pc_qoi = [], pc_huffmanY = [],
            pc_huffmanCb = [], pc_huffmanCr = [], pc_totalSize = 32\<rparr>"
  by (simp add: parseContainer_def HEADER_SIZE_def CONTAINER_MAGIC_def Let_def
        getUint32_def slice_def)

text \<open>
  Claim C3, amended. \<open>parseContainer\<close> never compares the recorded section lengths with
  the buffer length. Every buffer of at least 32 bytes whose first four bytes are
  \<open>KMR1\<close> and whose version byte is 1 is parsed without error, whatever the four
  recorded lengths are: each section is the slice of the recorded length, cut off at
  the end of the buffer, and \<open>totalSize\<close> is the length of the buffer.
\<close>

theorem parseContainer_no_length_check:
  assumes "HEADER_SIZE \<le> length buffer" "take 4 buffer = CONTAINER_MAGIC" "buffer ! 4 = 1"
  shows "\<exists>p. parseContainer buffer = Inr p
           \<and> pc_totalSize p = length buffer
           \<and> pc_qoi p = slice buffer 32 (32 + nat (getUint32 buffer 16))
           \<and> pc_huffmanY p = slice buffer (32 + nat (getUint32 buffer 16))
                (32 + nat (getUint32 buffer 16) + nat (getUint32 buffer 20))
           \<and> pc_huffmanCb p = slice buffer
                (32 + nat (getUint32 buffer 16) + nat (getUint32 buffer 20))
                (32 + nat (getUint32 buffer 16) + nat (getUint32 buffer 20)
                   + nat (getUint32 buffer 24))
           \<and> pc_huffmanCr p = slice buffer
                (32 + nat (getUint32 buffer 16) + nat (getUint32 buffer 20)
                   + nat (getUint32 buffer 24))
                (32 + nat (getUint32 buffer 16) + nat (getUint32 buffer 20)
                   + nat (getUint32 buffer 24) + nat (getUint32 buffer 28))"
  by (simp add: parseContainer_header [OF assms])

theorem parseContainer_no_length_check_witness:
  "HEADER_SIZE \<le> length [75, 77, 82, 49, 1, 8, 0, 1, 0, 0, 0, 1, 0, 0, 0, 1,
                          0, 0, 0, 9, 0, 0, 0, 0, 0, 0, 0, 0, 0, 0, 0, 0, 7, 7 :: int]
   \<and> (\<exists>p. parseContainer [75, 77, 82, 49, 1, 8, 0, 1, 0, 0, 0, 1, 0, 0, 0, 1,
                          0, 0, 0, 9, 0, 0, 0, 0, 0, 0, 0, 0, 0, 0, 0, 0, 7, 7] = Inr p
          \<and> pc_totalSize p = length [75, 77, 82, 49, 1, 8, 0, 1, 0, 0, 0, 1, 0, 0, 0, 1,
                          0, 0, 0, 9, 0, 0, 0, 0, 0, 0, 0, 0, 0, 0, 0, 0, 7, 7 :: int]
          \<and> pc_qoi p = [7, 7] \<and> pc_huffmanY p = []
          \<and> pc_huffmanCb p = [] \<and> pc_huffmanCr p = [])"
proof -
  let ?b = "[75, 77, 82, 49, 1, 8, 0, 1, 0, 0, 0, 1, 0, 0, 0, 1,
             0, 0, 0, 9, 0, 0, 0, 0, 0, 0, 0, 0, 0, 0, 0, 0, 7, 7 :: int]"
  have h: "HEADER_SIZE \<le> length ?b" "take 4 ?b = CONTAINER_MAGIC" "?b ! 4 = 1"
    by (simp_all add: HEADER_SIZE_def CONTAINER_MAGIC_def)
  show ?thesis
    using h(1) parseContainer_no_length_check [OF h]
    by (simp add: getUint32_def slice_def)
qed

text \<open>
  Claim C5 (as stated: every non-zero smooth byte is read as on) fails: the byte 2 at
  offset 7 is read as off.
\<close>

theorem parseContainer_smooth_counterexample:
  "parseContainer [75, 77, 82, 49, 1, 8, 0, 2, 0, 0, 0, 1, 0, 0, 0, 1,
                   0, 0, 0, 0, 0, 0, 0, 0, 0, 0, 0, 0, 0, 0, 0, 0]
     = Inr \<lparr>pc_version = 1, pc_width = 1, pc_height = 1, pc_blockSize = 8,
            pc_discardBits = 0, pc_smooth = False, pc_qoi = [], pc_huffmanY = [],
            pc_huffmanCb = [], pc_huffmanCr = [], pc_totalSize = 32\<rparr>"
  by (simp add: parseContainer_def HEADER_SIZE_def CONTAINER_MAGIC_def Let_def
        getUint32_def slice_def)

text \<open>
  Claim C5, amended. Whenever \<open>parseContainer\<close> accepts a buffer, smooth is on exactly
  when the byte at offset 7 equals 1: the value 0 and every value from 2 to 255 are
  read as off.
\<close>

theorem parseContainer_smooth_only_one:
  assumes "parseContainer buffer = Inr p"
  shows "pc_smooth p \<longleftrightarrow> buffer ! 7 = 1"
proof -
  from assms have "\<exists>q. parseContainer buffer = Inr q" by blast
  then have h: "HEADER_SIZE \<le> length buffer" "take 4 buffer = CONTAINER_MAGIC" "buffer ! 4 = 1"
    by (simp_all add: parseContainer_Inr_iff)
  from parseContainer_header [OF h] assms show ?thesis by auto
qed

theorem parseContainer_smooth_only_one_witness:
  "parseContainer [75, 77, 82, 49, 1, 8, 0, 255, 0, 0, 0, 1, 0, 0, 0, 1,
                   0, 0, 0, 0, 0, 0, 0, 0, 0, 0, 0, 0, 0, 0, 0, 0]
     = Inr \<lparr>pc_version = 1, pc_width = 1, pc_height = 1, pc_blockSize = 8,
            pc_discardBits = 0, pc_smooth = False, pc_qoi = [], pc_huffmanY = [],
            pc_huffmanCb = [], pc_huffmanCr = [], pc_totalSize = 32\<rparr>
   \<and> (pc_smooth \<lparr>pc_version = 1, pc_width = 1, pc_height = 1, pc_blockSize = 8,
            pc_discardBits = 0, pc_smooth = False, pc_qoi = [], pc_huffmanY = [],
            pc_huffmanCb = [], pc_huffmanCr = [], pc_totalSize = 32\<rparr>
        \<longleftrightarrow> [75, 77, 82, 49, 1, 8, 0, 255, 0, 0, 0, 1, 0, 0, 0, 1,
             0, 0, 0, 0, 0, 0, 0, 0, 0, 0, 0, 0, 0, 0, 0, 0 :: int] ! 7 = 1)"
proof -
  have h: "parseContainer [75, 77, 82, 49, 1, 8, 0, 255, 0, 0, 0, 1, 0, 0, 0, 1,
                   0, 0, 0, 0, 0, 0, 0, 0, 0, 0, 0, 0, 0, 0, 0, 0]
     = Inr \<lparr>pc_version = 1, pc_width = 1, pc_height = 1, pc_blockSize = 8,
            pc_discardBits = 0, pc_smooth = False, pc_qoi = [], pc_huffmanY = [],
            pc_huffmanCb = [], pc_huffmanCr = [], pc_totalSize = 32\<rparr>"
    by (simp add: parseContainer_def HEADER_SIZE_def CONTAINER_MAGIC_def Let_def
          getUint32_def slice_def)
  show ?thesis
    using h parseContainer_smooth_only_one [OF h] by blast
qed

section \<open>The alpha channel of the preview and of the residual\<close>

lemma toUint8Clamp_255 [simp]: "toUint8Clamp 255 = 255"
  by (simp add: toUint8Clamp_def)

lemma isByte_toUint8Clamp [simp]: "isByte (toUint8Clamp v)"
proof -
  have "0 < v \<Longrightarrow> v < 255 \<Longrightarrow> 0 \<le> \<lfloor>v\<rfloor> \<and> \<lfloor>v\<rfloor> + 1 \<le> 255"
    by (simp add: floor_less_iff le_floor_iff)
  then show ?thesis
    by (auto simp: toUint8Clamp_def isByte_def Let_def not_le)
qed

lemma putPixel_length [simp]: "length (putPixel off r g b out) = length out"
  by (simp add: putPixel_def)

lemma upd_nth_val: "xs ! i = v \<Longrightarrow> xs[i := v] ! i = v"
  by (cases "i < length xs") (simp_all add: list_update_beyond)

lemma putPixel_alpha_keep:
  "alphaSet k out \<Longrightarrow> alphaSet k (putPixel (4 * j) r g b out)"
proof -
  assume a: "alphaSet k out"
  have n: "4 * j \<noteq> 4 * k + 3" "4 * j + 1 \<noteq> 4 * k + 3" "4 * j + 2 \<noteq> 4 * k + 3" by presburger+
  let ?o3 = "out[4 * j := toUint8Clamp (min 255 (max 0 r)),
         4 * j + 1 := toUint8Clamp (min 255 (max 0 g)),
         4 * j + 2 := toUint8Clamp (min 255 (max 0 b))]"
  have b: "?o3 ! (4 * k + 3) = 255"
    using a n by (simp add: alphaSet_def)
  show ?thesis
  proof (cases "j = k")
    case True
    then show ?thesis using upd_nth_val [OF b] by (simp add: alphaSet_def putPixel_def)
  next
    case False
    then have "4 * j + 3 \<noteq> 4 * k + 3" by simp
    then show ?thesis using b by (simp add: alphaSet_def putPixel_def)
  qed
qed

lemma putPixel_alpha_set:
  "4 * k + 3 < length out \<Longrightarrow> alphaSet k (putPixel (4 * k) r g b out)"
  by (simp add: alphaSet_def putPixel_def)

lemma isByte_255 [simp]: "isByte 255"
  by (simp add: isByte_def)

lemma list_all_update: "list_all P xs \<Longrightarrow> P v \<Longrightarrow> list_all P (xs[i := v])"
  using set_update_subset_insert [of xs i v] by (auto simp: list_all_iff)

lemma putPixel_bytes:
  "list_all isByte out \<Longrightarrow> list_all isByte (putPixel off r g b out)"
  by (simp add: putPixel_def list_all_update)


lemma fold_invariant:
  "(\<And>a s. a \<in> set xs \<Longrightarrow> P s \<Longrightarrow> P (f a s)) \<Longrightarrow> P s \<Longrightarrow> P (fold f xs s)"
  by (induction xs arbitrary: s) simp_all

lemma fold_establish:
  assumes inv: "\<And>a s. a \<in> set xs \<Longrightarrow> P s \<Longrightarrow> P (f a s)"
    and keep: "\<And>a s. a \<in> set xs \<Longrightarrow> P s \<Longrightarrow> Q s \<Longrightarrow> Q (f a s)"
    and est: "\<And>s. P s \<Longrightarrow> Q (f e s)"
    and "e \<in> set xs" "P s"
  shows "Q (fold f xs s)"
  using assms
proof (induction xs arbitrary: s)
  case Nil
  then show ?case by simp
next
  case (Cons a xs)
  have P': "P (f a s)" using Cons.prems(1) [of a s] Cons.prems(5) by simp
  show ?case
  proof (cases "e \<in> set xs")
    case True
    have "Q (fold f xs (f a s))"
      by (rule Cons.IH [OF _ _ Cons.prems(3) True P'])
        (use Cons.prems(1,2) in auto)
    then show ?thesis by simp
  next
    case False
    with Cons.prems(4) have ea: "e = a" by simp
    have q: "Q (f a s)" using Cons.prems(3) [OF Cons.prems(5)] ea by simp
    have "P (fold f xs (f a s)) \<and> Q (fold f xs (f a s))"
      by (rule fold_invariant [where P = "\<lambda>s. P s \<and> Q s"])
        (use Cons.prems(1,2) P' q in auto)
    then show ?thesis by simp
  qed
qed

lemma putPixel_alpha_keep_dvd:
  "alphaSet k out \<Longrightarrow> 4 dvd off \<Longrightarrow> alphaSet k (putPixel off r g b out)"
  using putPixel_alpha_keep [of k out "off div 4" r g b] by simp

lemma putPixel_okBuf: "okBuf n out \<Longrightarrow> okBuf n (putPixel off r g b out)"
  by (simp add: okBuf_def putPixel_bytes)

lemma fillTile_okBuf:
  "okBuf n out \<Longrightarrow> okBuf n (fillTile nY nCb nCr w h block gw gx gy out)"
  unfolding fillTile_def Let_def
  by (rule fold_invariant) (simp_all add: split_beta putPixel_okBuf)

lemma fillTile_alpha_keep:
  "alphaSet k out \<Longrightarrow> alphaSet k (fillTile nY nCb nCr w h block gw gx gy out)"
  unfolding fillTile_def Let_def
  by (rule fold_invariant) (simp_all add: split_beta putPixel_alpha_keep_dvd)

lemma tilePixels_mem:
  "(x, y) \<in> set (tilePixels w h block gx gy) \<longleftrightarrow>
     gx * block \<le> x \<and> x < min w (gx * block + block)
       \<and> gy * block \<le> y \<and> y < min h (gy * block + block)"
  by (force simp: tilePixels_def Let_def)

lemma fillTile_alpha_set:
  assumes "okBuf n out" "4 * (y * w + x) + 3 < n" "(x, y) \<in> set (tilePixels w h block gx gy)"
  shows "alphaSet (y * w + x) (fillTile nY nCb nCr w h block gw gx gy out)"
  unfolding fillTile_def Let_def
proof (rule fold_establish [where P = "okBuf n" and e = "(x, y)"], goal_cases)
  case (1 a s)
  then show ?case by (simp add: split_beta putPixel_okBuf)
next
  case (2 a s)
  then show ?case by (simp add: split_beta putPixel_alpha_keep_dvd)
next
  case (3 s)
  then show ?case
    using assms(2) putPixel_alpha_set [of "y * w + x" s] by (simp add: okBuf_def mult.commute)
next
  case 4
  show ?case by (rule assms(3))
next
  case 5
  show ?case by (rule assms(1))
qed


lemma raster_index_less: "x < w \<Longrightarrow> y < h \<Longrightarrow> y * w + x < h * (w::nat)"
proof -
  assume a: "x < w" "y < h"
  then have "y * w + x < Suc y * w" by simp
  also have "\<dots> \<le> h * w" using a(2) by (intro mult_le_mono1) simp
  finally show ?thesis .
qed

lemma tileRow_okBuf:
  "okBuf n out \<Longrightarrow> okBuf n (fold (\<lambda>gx. fillTile nY nCb nCr w h block gw gx gy) gxs out)"
  by (rule fold_invariant) (simp_all add: fillTile_okBuf)

lemma tileRow_alpha_keep:
  "alphaSet k out \<Longrightarrow> alphaSet k (fold (\<lambda>gx. fillTile nY nCb nCr w h block gw gx gy) gxs out)"
  by (rule fold_invariant) (simp_all add: fillTile_alpha_keep)

lemma flat_okBuf:
  "okBuf n out \<Longrightarrow>
   okBuf n (fold (\<lambda>gy. fold (\<lambda>gx. fillTile nY nCb nCr w h block gw gx gy) gxs) gys out)"
  by (rule fold_invariant) (simp_all add: tileRow_okBuf)

lemma flat_alpha:
  assumes "x < w" "y < h" "0 < block" "x div block < gw" "y div block < gh"
    and "okBuf (4 * (w * h)) out"
  shows "alphaSet (y * w + x)
           (fold (\<lambda>gy. fold (\<lambda>gx. fillTile nY nCb nCr w h block gw gx gy) [0..<gw]) [0..<gh] out)"
proof -
  let ?n = "4 * (w * h)" and ?gx = "x div block" and ?gy = "y div block"
  have inr: "4 * (y * w + x) + 3 < ?n"
    using raster_index_less [OF assms(1,2)] by (simp add: mult.commute)
  have mem: "(x, y) \<in> set (tilePixels w h block ?gx ?gy)"
  proof -
    have "?gx * block \<le> x" "?gy * block \<le> y" by simp_all
    moreover have "x < ?gx * block + block" "y < ?gy * block + block"
      using assms(3) dividend_less_div_times [of block x] dividend_less_div_times [of block y]
      by (simp_all add: add.commute mult.commute)
    ultimately show ?thesis using assms(1,2) by (simp add: tilePixels_mem)
  qed
  have row: "alphaSet (y * w + x)
      (fold (\<lambda>gx. fillTile nY nCb nCr w h block gw gx ?gy) [0..<gw] s)" if "okBuf ?n s" for s
  proof (rule fold_establish [where P = "okBuf ?n" and e = ?gx], goal_cases)
    case (1 a s)
    then show ?case by (simp add: fillTile_okBuf)
  next
    case (2 a s)
    then show ?case by (simp add: fillTile_alpha_keep)
  next
    case (3 s)
    then show ?case using fillTile_alpha_set [OF _ inr mem] by simp
  next
    case 4
    show ?case using assms(4) by simp
  next
    case 5
    show ?case by (rule that)
  qed
  show ?thesis
  proof (rule fold_establish [where P = "okBuf ?n" and e = ?gy], goal_cases)
    case (1 a s)
    then show ?case by (simp add: tileRow_okBuf)
  next
    case (2 a s)
    then show ?case by (simp add: tileRow_alpha_keep)
  next
    case (3 s)
    then show ?case by (rule row)
  next
    case 4
    show ?case using assms(5) by simp
  next
    case 5
    show ?case by (rule assms(6))
  qed
qed

lemma smoothPixel_eq:
  "\<exists>r g b. smoothPixel nY nCb nCr w h block gw gh x y out = putPixel ((y * w + x) * 4) r g b out"
  unfolding smoothPixel_def Let_def by blast

lemma smoothPixel_okBuf:
  "okBuf n out \<Longrightarrow> okBuf n (smoothPixel nY nCb nCr w h block gw gh x y out)"
  using smoothPixel_eq [of nY nCb nCr w h block gw gh x y out] putPixel_okBuf by metis

lemma smoothPixel_alpha_keep:
  "alphaSet k out \<Longrightarrow> alphaSet k (smoothPixel nY nCb nCr w h block gw gh x y out)"
  using smoothPixel_eq [of nY nCb nCr w h block gw gh x y out]
    putPixel_alpha_keep_dvd [of k out "(y * w + x) * 4"] by force

lemma smoothPixel_alpha_set:
  "okBuf n out \<Longrightarrow> 4 * (y * w + x) + 3 < n
     \<Longrightarrow> alphaSet (y * w + x) (smoothPixel nY nCb nCr w h block gw gh x y out)"
  using smoothPixel_eq [of nY nCb nCr w h block gw gh x y out]
    putPixel_alpha_set [of "y * w + x" out]
  by (force simp: okBuf_def mult.commute)

lemma smoothRow_okBuf:
  "okBuf n out \<Longrightarrow> okBuf n (fold (\<lambda>x. smoothPixel nY nCb nCr w h block gw gh x y) xs out)"
  by (rule fold_invariant) (simp_all add: smoothPixel_okBuf)

lemma smoothRow_alpha_keep:
  "alphaSet k out \<Longrightarrow> alphaSet k (fold (\<lambda>x. smoothPixel nY nCb nCr w h block gw gh x y) xs out)"
  by (rule fold_invariant) (simp_all add: smoothPixel_alpha_keep)

lemma smooth_okBuf:
  "okBuf n out \<Longrightarrow>
   okBuf n (fold (\<lambda>y. fold (\<lambda>x. smoothPixel nY nCb nCr w h block gw gh x y) xs) ys out)"
  by (rule fold_invariant) (simp_all add: smoothRow_okBuf)

lemma smooth_alpha:
  assumes "x < w" "y < h" "okBuf (4 * (w * h)) out"
  shows "alphaSet (y * w + x)
           (fold (\<lambda>y. fold (\<lambda>x. smoothPixel nY nCb nCr w h block gw gh x y) [0..<w]) [0..<h] out)"
proof -
  let ?n = "4 * (w * h)"
  have inr: "4 * (y * w + x) + 3 < ?n"
    using raster_index_less [OF assms(1,2)] by (simp add: mult.commute)
  have row: "alphaSet (y * w + x)
      (fold (\<lambda>x. smoothPixel nY nCb nCr w h block gw gh x y) [0..<w] s)" if "okBuf ?n s" for s
  proof (rule fold_establish [where P = "okBuf ?n" and e = x], goal_cases)
    case (1 a s)
    then show ?case by (simp add: smoothPixel_okBuf)
  next
    case (2 a s)
    then show ?case by (simp add: smoothPixel_alpha_keep)
  next
    case (3 s)
    then show ?case using smoothPixel_alpha_set [OF _ inr] by simp
  next
    case 4
    show ?case using assms(1) by simp
  next
    case 5
    show ?case by (rule that)
  qed
  show ?thesis
  proof (rule fold_establish [where P = "okBuf ?n" and e = y], goal_cases)
    case (1 a s)
    then show ?case by (simp add: smoothRow_okBuf)
  next
    case (2 a s)
    then show ?case by (simp add: smoothRow_alpha_keep)
  next
    case (3 s)
    then show ?case by (rule row)
  next
    case 4
    show ?case using assms(2) by simp
  next
    case 5
    show ?case by (rule assms(3))
  qed
qed


lemma ceilDiv_covers:
  assumes "0 < b" "x < nat w"
  shows "x div nat b < nat (ceilDiv w b)"
proof -
  let ?q = "ceilDiv w b"
  have d: "int (x div nat b) = int x div b" using assms(1) by (simp add: zdiv_int)
  have "(- w) div b * b \<le> - w"
    using assms(1) pos_mod_sign [of b "- w"] div_mult_mod_eq [of "- w" b] by linarith
  then have "w \<le> ?q * b" by (simp add: ceilDiv_def)
  moreover have "int x div b * b \<le> int x"
    using assms(1) pos_mod_sign [of b "int x"] div_mult_mod_eq [of "int x" b] by linarith
  moreover have "int x < w" using assms(2) by simp
  ultimately have "int x div b * b < ?q * b" by linarith
  then have "int x div b < ?q" using assms(1) by (simp add: mult_less_cancel_right)
  then show ?thesis using d by linarith
qed

lemma okBuf_blank: "okBuf n (replicate n 0)"
  by (simp add: okBuf_def list_all_length isByte_def)

lemma processImageFrame_preview:
  assumes v: "validImage img" and p: "processImageFrame img blockSize discardBits smooth = Inr pr"
  shows "width (processedImageData pr) = width img"
    and "height (processedImageData pr) = height img"
    and "validImage (processedImageData pr)"
    and "k < nat (width img) * nat (height img) \<Longrightarrow>
           data (processedImageData pr) ! (4 * k + 3)
             = (if min 6 (max 0 discardBits) = 0 then data img ! (4 * k + 3) else 255)"
proof -
  define w h n where "w = nat (width img)" and "h = nat (height img)" and "n = 4 * (w * h)"
  define d where "d = min 6 (max 0 discardBits)"
  define block where "block = max 2 blockSize"
  define gw gh where "gw = nat (ceilDiv (width img) block)" and "gh = nat (ceilDiv (height img) block)"
  define src where "src = data img"
  define nodes where "nodes = nodalGrid src w h (nat block) d gw gh"
  define nY nCb nCr where "nY = map fst nodes" and "nCb = map (fst \<circ> snd) nodes"
    and "nCr = map (snd \<circ> snd) nodes"
  define flat where "flat = fold (\<lambda>gy. fold (\<lambda>gx. fillTile nY nCb nCr w h (nat block) gw gx gy) [0..<gw])
            [0..<gh] (replicate (length src) 0)"
  define smoothed where "smoothed = fold (\<lambda>y. fold (\<lambda>x. smoothPixel nY nCb nCr w h (nat block) gw gh x y) [0..<w])
            [0..<h] (replicate (length src) 0)"
  define out where "out = (if d = 0 then src else if \<not> smooth then flat else smoothed)"
  have len: "length src = n" and bytes: "list_all isByte src"
    using v by (simp_all add: validImage_def src_def n_def w_def h_def)
  have blank: "okBuf n (replicate (length src) 0)" using okBuf_blank [of n] len by simp
  have "processImageFrame img blockSize discardBits smooth =
          (if ceilDiv (width img) block * ceilDiv (height img) block < 0 then Inl RangeError
           else Inr \<lparr>processedImageData = \<lparr>width = width img, height = height img, data = out\<rparr>,
                     nodalPointsY = nY, nodalPointsCb = nCb, nodalPointsCr = nCr\<rparr>)"
    unfolding processImageFrame_def Let_def out_def flat_def smoothed_def nY_def nCb_def nCr_def
      nodes_def src_def gw_def gh_def block_def d_def w_def h_def
    by (rule refl)
  with p have pr: "pr = \<lparr>processedImageData = \<lparr>width = width img, height = height img, data = out\<rparr>,
                     nodalPointsY = nY, nodalPointsCb = nCb, nodalPointsCr = nCr\<rparr>"
    by (cases "ceilDiv (width img) block * ceilDiv (height img) block < 0") simp_all
  have o: "data (processedImageData pr) = out"
    and dims: "width (processedImageData pr) = width img" "height (processedImageData pr) = height img"
    by (simp_all add: pr)
  show "width (processedImageData pr) = width img" "height (processedImageData pr) = height img"
    by (rule dims)+
  have okf: "okBuf n flat" unfolding flat_def by (rule flat_okBuf [OF blank])
  have oks: "okBuf n smoothed" unfolding smoothed_def by (rule smooth_okBuf [OF blank])
  have ok: "okBuf n out"
    using okf oks len bytes by (simp add: out_def okBuf_def)
  then show "validImage (processedImageData pr)"
    by (simp add: validImage_def dims o okBuf_def n_def w_def h_def)
  show "data (processedImageData pr) ! (4 * k + 3)
             = (if min 6 (max 0 discardBits) = 0 then data img ! (4 * k + 3) else 255)"
    if "k < nat (width img) * nat (height img)"
  proof (cases "d = 0")
    case True
    then show ?thesis by (simp add: o out_def src_def flip: d_def)
  next
    case False
    from that have k: "k < w * h" by (simp add: w_def h_def)
    then have w0: "0 < w" by (cases "w = 0") simp_all
    have x: "k mod w < w" using w0 by simp
    have y: "k div w < h" using k by (simp add: less_mult_imp_div_less mult.commute)
    have kk: "k div w * w + k mod w = k" by simp
    have gx: "(k mod w) div nat block < gw"
      unfolding gw_def by (rule ceilDiv_covers) (use x in \<open>simp_all add: block_def w_def\<close>)
    have gy: "(k div w) div nat block < gh"
      unfolding gh_def by (rule ceilDiv_covers) (use y in \<open>simp_all add: block_def h_def\<close>)
    have b0: "0 < nat block" by (simp add: block_def)
    have blank': "okBuf (4 * (w * h)) (replicate (length src) 0)" using blank by (simp add: n_def)
    have af: "alphaSet k flat"
      using flat_alpha [OF x y b0 gx gy blank', of nY nCb nCr] by (simp add: flat_def kk)
    have as: "alphaSet k smoothed"
      using smooth_alpha [OF x y blank', of nY nCb nCr "nat block" gw gh] by (simp add: smoothed_def kk)
    have "alphaSet k out" using af as False by (simp add: out_def)
    then show ?thesis using False by (simp add: alphaSet_def o flip: d_def)
  qed
qed

lemma buildResidualImage_alpha:
  assumes "validImage img" "k < nat (width img) * nat (height img)"
  shows "data (buildResidualImage img) ! (4 * k + 3) = data img ! (4 * k + 3)"
proof -
  let ?w = "nat (width img)" and ?h = "nat (height img)"
  have len: "length (data img) = 4 * (?h * ?w)" and bytes: "list_all isByte (data img)"
    using assms(1) by (simp_all add: validImage_def mult.commute)
  have k: "k < ?h * ?w" using assms(2) by (simp add: mult.commute)
  from residual_fold [OF len bytes order_refl, of ?w] k
  have "fold (\<lambda>k. residualPixel (data img) ?w (k mod ?w) (k div ?w)) [0..<?h * ?w]
          (replicate (length (data img)) 0) ! (4 * k + 3) = residualAt (data img) ?w k 3"
    by simp
  then show ?thesis
    by (simp add: buildResidualImage_def Let_def raster_fold residualAt_def)
qed

lemma ceilDiv_nonneg: "0 < b \<Longrightarrow> 0 \<le> w \<Longrightarrow> 0 \<le> ceilDiv w b"
proof -
  assume "0 < b" "0 \<le> w"
  then have "(- w) div b \<le> 0 div b" by (intro zdiv_mono1) simp_all
  then show ?thesis by (simp add: ceilDiv_def)
qed

lemma processImageFrame_total:
  assumes "0 \<le> width img" "0 \<le> height img"
  shows "\<exists>pr. processImageFrame img blockSize discardBits smooth = Inr pr"
proof -
  have "0 \<le> ceilDiv (width img) (max 2 blockSize) * ceilDiv (height img) (max 2 blockSize)"
    using assms by (intro mult_nonneg_nonneg ceilDiv_nonneg) simp_all
  then have c: "(ceilDiv (width img) (max 2 blockSize) * ceilDiv (height img) (max 2 blockSize) < 0)
      = False"
    by simp
  show ?thesis
    unfolding processImageFrame_def Let_def c if_False by blast
qed

lemma residual_alpha_of_preview:
  assumes v: "validImage img" and k: "k < nat (width img) * nat (height img)"
  shows "\<exists>pr. processImageFrame img blockSize discardBits smooth = Inr pr
           \<and> data (buildResidualImage (processedImageData pr)) ! (4 * k + 3)
               = data (processedImageData pr) ! (4 * k + 3)
           \<and> data (processedImageData pr) ! (4 * k + 3)
               = (if min 6 (max 0 discardBits) = 0 then data img ! (4 * k + 3) else 255)"
proof -
  have "0 < nat (width img) * nat (height img)" using k by linarith
  then have "0 < nat (width img)" "0 < nat (height img)" by simp_all
  then have "0 \<le> width img" "0 \<le> height img" by simp_all
  from processImageFrame_total [OF this]
  obtain pr where p: "processImageFrame img blockSize discardBits smooth = Inr pr" by blast
  note pv = processImageFrame_preview [OF v p]
  have k': "k < nat (width (processedImageData pr)) * nat (height (processedImageData pr))"
    using k by (simp add: pv(1,2))
  show ?thesis
  proof (intro exI conjI)
    show "processImageFrame img blockSize discardBits smooth = Inr pr" by (rule p)
    show "data (buildResidualImage (processedImageData pr)) ! (4 * k + 3)
               = data (processedImageData pr) ! (4 * k + 3)"
      by (rule buildResidualImage_alpha [OF pv(3) k'])
    show "data (processedImageData pr) ! (4 * k + 3)
               = (if min 6 (max 0 discardBits) = 0 then data img ! (4 * k + 3) else 255)"
      by (rule pv(4) [OF k])
  qed
qed

text \<open>
  Claim C4 (as stated: for every parameter triple, \<open>discardBits > 0\<close> included, the alpha
  byte of the residual image equals the source alpha at every pixel) fails. With
  \<open>discardBits = 1\<close> the preview is rebuilt from the nodes with alpha 255, and the
  residual is taken from the preview: for the one-pixel image \<open>(10, 20, 30, 7)\<close> the
  residual alpha is 255, not 7.
\<close>

theorem residual_alpha_counterexample:
  "processImageFrame \<lparr>width = 1, height = 1, data = [10, 20, 30, 7]\<rparr> 2 1 False
     = Inr \<lparr>processedImageData = \<lparr>width = 1, height = 1, data = [10, 20, 29, 255]\<rparr>,
            nodalPointsY = [18], nodalPointsCb = [134], nodalPointsCr = [122]\<rparr>
   \<and> buildResidualImage \<lparr>width = 1, height = 1, data = [10, 20, 29, 255]\<rparr>
     = \<lparr>width = 1, height = 1, data = [10, 20, 29, 255]\<rparr>"
  by code_simp

text \<open>
  Claim C4, amended. For every source image and every parameter triple,
  \<open>processImageFrame\<close> succeeds and, at every pixel, the alpha byte of the residual image
  equals the alpha byte of the preview that \<open>processImageFrame\<close> returns: that is the
  source alpha when the effective \<open>discardBits\<close> (clamped to \<open>[0, 6]\<close>) is 0, and 255
  when it is positive.
\<close>

theorem residual_alpha_is_preview_alpha:
  assumes "validImage img" "k < nat (width img) * nat (height img)"
  shows "\<exists>pr. processImageFrame img blockSize discardBits smooth = Inr pr
           \<and> data (buildResidualImage (processedImageData pr)) ! (4 * k + 3)
               = data (processedImageData pr) ! (4 * k + 3)
           \<and> data (processedImageData pr) ! (4 * k + 3)
               = (if min 6 (max 0 discardBits) = 0 then data img ! (4 * k + 3) else 255)"
  using assms by (rule residual_alpha_of_preview)

theorem residual_alpha_is_preview_alpha_witness:
  "validImage \<lparr>width = 1, height = 1, data = [10, 20, 30, 7]\<rparr>
   \<and> (0 :: nat) < nat (width \<lparr>width = 1, height = 1, data = [10, 20, 30, 7]\<rparr>)
                     * nat (height \<lparr>width = 1, height = 1, data = [10, 20, 30, 7]\<rparr>)
   \<and> (\<exists>pr. processImageFrame \<lparr>width = 1, height = 1, data = [10, 20, 30, 7]\<rparr> 2 1 True = Inr pr
          \<and> data (buildResidualImage (processedImageData pr)) ! 3 = 255)"
proof -
  let ?I = "\<lparr>width = 1, height = 1, data = [10, 20, 30, 7]\<rparr>"
  have h: "validImage ?I" "(0 :: nat) < nat (width ?I) * nat (height ?I)"
    by (simp_all add: validImage_def isByte_def)
  from residual_alpha_is_preview_alpha [OF h, of 2 1 True]
  obtain pr where p: "processImageFrame ?I 2 1 True = Inr pr"
    and a: "data (buildResidualImage (processedImageData pr)) ! (4 * 0 + 3)
              = data (processedImageData pr) ! (4 * 0 + 3)"
    and b: "data (processedImageData pr) ! (4 * 0 + 3)
              = (if min 6 (max 0 (1 :: int)) = 0 then data ?I ! (4 * 0 + 3) else 255)"
    by blast
  from a b have "data (buildResidualImage (processedImageData pr)) ! 3 = 255" by simp
  with p h show ?thesis by blast
qed

section \<open>QOI: a trailing run is cut short by the decoder\<close>

text \<open>
  Claim C6 (decoding the QOI stream of an image returns the image). The code does not:
  the loop of \<open>decodeQOI\<close> also stops when \<open>p\<close> reaches \<open>bytes.length - 8\<close>, and after
  the last chunk of the stream \<open>p\<close> is there. When that chunk is a run of two or more
  pixels, only the first pixel of the run is written and the rest of the buffer stays
  zero. For the image of two pixels \<open>(0, 0, 0, 255)\<close> the encoder writes the single
  chunk \<open>0xC1\<close> (a run of 2), and the decoder returns the second pixel as
  \<open>(0, 0, 0, 0)\<close>.
\<close>

theorem decodeQOI_cuts_trailing_run:
  "encodeQOI \<lparr>width = 2, height = 1, data = [0, 0, 0, 255, 0, 0, 0, 255]\<rparr>
     = [113, 111, 105, 102, 0, 0, 0, 2, 0, 0, 0, 1, 4, 0, 193, 0, 0, 0, 0, 0, 0, 0, 1]
   \<and> decodeQOI (encodeQOI \<lparr>width = 2, height = 1, data = [0, 0, 0, 255, 0, 0, 0, 255]\<rparr>)
     = Inr \<lparr>width = 2, height = 1, data = [0, 0, 0, 255, 0, 0, 0, 0]\<rparr>"
  by code_simp

section \<open>Huffman codec: the code at concrete inputs\<close>

text \<open>
  The evaluations below run the decoder on an engine whose largest typed array has
  \<open>2 ^ 32 - 1 = 4294967295\<close> elements; the inputs ask for arrays of at most ten bytes.
\<close>

text \<open>
  Claim C9 (as stated: for the input \<open>[42, 42, 42, 42, 42]\<close> the post-delta bytes are
  \<open>170, 0, 0, 0, 0\<close> and their run-length encoding is \<open>[170, 0xFF, 4, 0]\<close>) fails: a
  difference of 0 is biased by 128 like every other difference, so the post-delta bytes
  are \<open>170, 128, 128, 128, 128\<close>.
\<close>

theorem deltaEncode_bias_counterexample:
  "deltaEncode [42, 42, 42, 42, 42] \<noteq> [170, 0, 0, 0, 0]
   \<and> rleEncode (deltaEncode [42, 42, 42, 42, 42]) \<noteq> [170, 255, 4, 0]"
  by code_simp

text \<open>
  Claim C9, amended. For the input \<open>[42, 42, 42, 42, 42]\<close> the post-delta byte sequence is
  \<open>170, 128, 128, 128, 128\<close>, its run-length encoding is \<open>[170, 0xFF, 4, 128]\<close>, and
  \<open>decodeHuffman\<close> applied to the full encoding with \<open>expectedLength = 5\<close> returns
  \<open>[42, 42, 42, 42, 42]\<close>.
\<close>

theorem huffman_degenerate_scenario:
  "deltaEncode [42, 42, 42, 42, 42] = [170, 128, 128, 128, 128]
   \<and> rleEncode (deltaEncode [42, 42, 42, 42, 42]) = [170, 255, 4, 128]
   \<and> encodeHuffman [42, 42, 42, 42, 42] = [4, 4, 2, 128, 2, 170, 2, 255, 2, 177]
   \<and> decodeHuffman 4294967295 (encodeHuffman [42, 42, 42, 42, 42]) 5
       = Inr [42, 42, 42, 42, 42]"
  by code_simp

text \<open>
  Claim C8 (\<open>decodeHuffman\<close> raises a format error for a truncated header, for a bit
  stream that ends before \<open>expectedLength\<close> bytes are produced, and for a bit pattern
  that matches no code range). The decoder of \<open>huffman.ts\<close> raises in none of the three
  cases: it leaves its loops and returns the zero-filled output. Below, the header
  announces two entries and holds half of one; the header is complete and no bit
  follows although three bytes are expected; the only code is \<open>0\<close> (one bit) and the
  stream is \<open>11111111\<close>.
\<close>

theorem decodeHuffman_returns_zeros_on_bad_stream:
  "decodeHuffman 4294967295 [2, 65] 3 = Inr [0, 0, 0]
   \<and> decodeHuffman 4294967295 [1, 65, 1] 3 = Inr [0, 0, 0]
   \<and> decodeHuffman 4294967295 [1, 65, 1, 255] 1 = Inr [0]"
  by code_simp


section \<open>Huffman decoder: a stream that holds the expected values is decoded\<close>

lemma isByte_clampByte [simp]: "isByte (clampByte v)"
  by (simp add: isByte_def clampByte_def)






section \<open>Pipeline: the lossless setting on the spec's first scenario\<close>

text \<open>
  Claim C1 (with \<open>discardBits = 0\<close>, decoding the container of an image returns the
  image byte for byte). The code does not, on the scenario S1 of the specification: the
  2 by 2 image of four pixels \<open>(255, 0, 0, 255)\<close> with \<open>blockSize = 2\<close> and
  \<open>smooth = true\<close>. The residual image ends in a run of two pixels \<open>(0, 0, 0, 255)\<close>,
  which \<open>encodeQOI\<close> writes as the last chunk \<open>0xC1\<close>; \<open>decodeQOI\<close> stops after the
  first pixel of that run, so the last pixel of the residual stays \<open>(0, 0, 0, 0)\<close> and
  the decoded image ends in \<open>(255, 0, 0, 0)\<close>: its last alpha byte is 0, not 255.
  (The decoder runs on an engine whose largest typed array has \<open>4294967295\<close> elements.)
\<close>

theorem lossless_roundtrip_fails_on_solid_red: "encodeImage \<lparr>width = 2, height = 2,
       data = [255, 0, 0, 255, 255, 0, 0, 255, 255, 0, 0, 255, 255, 0, 0, 255]\<rparr> 2 0 True
     = Inr [75, 77, 82, 49, 1, 2, 0, 1, 0, 0, 0, 2, 0, 0, 0, 2, 0, 0, 0, 25, 0, 0,
       0, 4, 0, 0, 0, 4, 0, 0, 0, 6, 113, 111, 105, 102, 0, 0, 0, 2, 0, 0, 0,
       2, 4, 0, 90, 122, 193, 0, 0, 0, 0, 0, 0, 0, 1, 1, 204, 1, 0, 1, 213,
       1, 0, 2, 1, 1, 255, 1, 160]
   \<and> decodeContainerToImage 4294967295 [75, 77, 82, 49, 1, 2, 0, 1, 0, 0, 0, 2, 0, 0, 0, 2, 0, 0, 0, 25, 0, 0,
       0, 4, 0, 0, 0, 4, 0, 0, 0, 6, 113, 111, 105, 102, 0, 0, 0, 2, 0, 0, 0,
       2, 4, 0, 90, 122, 193, 0, 0, 0, 0, 0, 0, 0, 1, 1, 204, 1, 0, 1, 213,
       1, 0, 2, 1, 1, 255, 1, 160]
     = Inr \<lparr>dc_imageData = \<lparr>width = 2, height = 2,
              data = [255, 0, 0, 255, 255, 0, 0, 255, 255, 0, 0, 255, 255, 0, 0, 0]\<rparr>,
            dc_width = 2, dc_height = 2, dc_blockSize = 2, dc_discardBits = 0,
            dc_smooth = True, dc_qoiSize = 25, dc_nodalSize = 14, dc_totalSize = 71,
            dc_nodalPointsY = [76], dc_nodalPointsCb = [85], dc_nodalPointsCr = [0]\<rparr>"
  by code_simp

text \<open>The pixel buffer that comes back, read off the theorem above.\<close>

theorem lossless_roundtrip_fails_on_solid_red_witness:
  "(case decodeContainerToImage 4294967295
            [75, 77, 82, 49, 1, 2, 0, 1, 0, 0, 0, 2, 0, 0, 0, 2, 0, 0, 0, 25, 0, 0,
             0, 4, 0, 0, 0, 4, 0, 0, 0, 6, 113, 111, 105, 102, 0, 0, 0, 2, 0, 0, 0,
             2, 4, 0, 90, 122, 193, 0, 0, 0, 0, 0, 0, 0, 1, 1, 204, 1, 0, 1, 213,
             1, 0, 2, 1, 1, 255, 1, 160] of
      Inl e \<Rightarrow> []
    | Inr d \<Rightarrow> data (dc_imageData d))
   = [255, 0, 0, 255, 255, 0, 0, 255, 255, 0, 0, 255, 255, 0, 0, 0]"
  using lossless_roundtrip_fails_on_solid_red by simp

end
